theory Spec2Isabelle
  imports Main "HOL-Library.Sublist" "HOL-Library.Multiset" "HOL-Library.AList"
begin

section \<open>Strings, exceptions and regular expressions\<close>

text \<open>
  Python strings are modelled as \<^typ>\<open>string\<close>; \<open>a in b\<close> on strings is
  \<^const>\<open>sublist\<close>, \<open>b.endswith(a)\<close> is \<^const>\<open>suffix\<close>. An attribute
  read with \<open>tag.get(...)\<close> is a \<^typ>\<open>string option\<close> (\<open>None\<close> when the
  attribute is absent). Every exception the modelled code can raise is a value of
  \<open>py_exception\<close>; a computation that may raise returns \<open>py_exception + 'a\<close>.
\<close>

datatype py_exception =
    AttributeError
  | TypeError
  | ValueError string
  | ParserError
  | MissingSchema
  | InvalidSchema
  | ConnectionError
  | RequestException

definition newline :: char where
  "newline = CHR 0x0A"

text \<open>\<open>bool(s)\<close> of an optional string: \<open>None\<close> and the empty string are falsy.\<close>

fun truthy :: "string option \<Rightarrow> bool" where
  "truthy None = False"
| "truthy (Some s) = (s \<noteq> [])"

text \<open>\<open>s.endswith((a, b, ...))\<close>.\<close>

definition endswith :: "string \<Rightarrow> string list \<Rightarrow> bool" where
  "endswith s sfxs = list_ex (\<lambda>x. suffix x s) sfxs"

text \<open>
  The fragment of regular expressions the source uses with \<open>re.search\<close>, matched by
  derivatives. \<open>re_search r s\<close> is the truth value of \<open>re.search(r, s)\<close>: some
  substring of \<open>s\<close> is in the language of \<open>r\<close>. \<open>Digit\<close> is \<open>\d\<close> on
  ASCII text.
\<close>

datatype regex =
    Nul
  | Eps
  | Lit char
  | Digit
  | Alt regex regex
  | Seq regex regex

definition is_digit :: "char \<Rightarrow> bool" where
  "is_digit c = (48 \<le> (of_char c :: nat) \<and> (of_char c :: nat) \<le> 57)"

fun nullable :: "regex \<Rightarrow> bool" where
  "nullable Nul = False"
| "nullable Eps = True"
| "nullable (Lit c) = False"
| "nullable Digit = False"
| "nullable (Alt r s) = (nullable r \<or> nullable s)"
| "nullable (Seq r s) = (nullable r \<and> nullable s)"

fun deriv :: "char \<Rightarrow> regex \<Rightarrow> regex" where
  "deriv c Nul = Nul"
| "deriv c Eps = Nul"
| "deriv c (Lit d) = (if c = d then Eps else Nul)"
| "deriv c Digit = (if is_digit c then Eps else Nul)"
| "deriv c (Alt r s) = Alt (deriv c r) (deriv c s)"
| "deriv c (Seq r s) =
     (if nullable r then Alt (Seq (deriv c r) s) (deriv c s) else Seq (deriv c r) s)"

fun re_match :: "regex \<Rightarrow> string \<Rightarrow> bool" where
  "re_match r [] = nullable r"
| "re_match r (c # cs) = (nullable r \<or> re_match (deriv c r) cs)"

fun re_search :: "regex \<Rightarrow> string \<Rightarrow> bool" where
  "re_search r [] = nullable r"
| "re_search r (c # cs) = (re_match r (c # cs) \<or> re_search r cs)"

definition opt :: "regex \<Rightarrow> regex" where
  "opt r = Alt r Eps"

section \<open>The tag checkers of \<open>data_checkers.py\<close>\<close>

text \<open>
  An \<open>img\<close> tag as the checkers read it: its \<open>src\<close>, \<open>alt\<close> and \<open>srcset\<close>
  attributes and the name of its parent element (\<open>tag.findParent().name\<close>; a tag
  found in a parsed page always has a parent).
\<close>

record img_tag =
  src :: "string option"
  alt :: "string option"
  srcset :: "string option"
  parent_name :: string

text \<open>
  The class attributes \<open>ImageDuplicateChecker.instance\<close> and
  \<open>ImageDuplicateChecker.duplicates\<close>: one copy for the whole process. An instance
  flag is the identity of a \<open>WebParser\<close> object, a natural number here.
\<close>

record checker_state =
  cls_instance :: "nat option"
  cls_duplicates :: "string option set"

datatype checker =
    NoImageExistenceChecker
  | ImageExtensionChecker
  | NewsPageLogoChecker
  | ImageDuplicateChecker
  | ImageDoubleColon
  | ImageBBCComNotSrc
  | StatsResearchLinks
  | Icons
  | CaptionHrefChecker

definition prohibited_extensions :: "string list" where
  "prohibited_extensions = [''gif'', ''svg'']"

definition statistics_collection_sites :: "string list" where
  "statistics_collection_sites =
     [''stats'', ''scorecardresearch'', ''noscript'', ''top-fwz1'', ''mc.yandex.ru'']"

text \<open>The pattern \<^verbatim>\<open>\d0{1,2}(:|x)\d{1,2}0\<close>.\<close>

definition icons_pattern :: regex where
  "icons_pattern =
     Seq Digit (Seq (Lit CHR ''0'') (Seq (opt (Lit CHR ''0''))
       (Seq (Alt (Lit CHR '':'') (Lit CHR ''x''))
         (Seq Digit (Seq (opt Digit) (Lit CHR ''0''))))))"

text \<open>
  \<open>check c tag flag st\<close> is \<open>c().check(tag, flag)\<close> run in the class state \<open>st\<close>:
  the value returned or the exception raised, and the class state afterwards. Only
  \<open>ImageDuplicateChecker\<close> reads or writes the state. A string method or a
  containment test on a missing \<open>src\<close> raises.
\<close>

fun check :: "checker \<Rightarrow> img_tag \<Rightarrow> nat \<Rightarrow> checker_state
    \<Rightarrow> (py_exception + bool) \<times> checker_state" where
  "check NoImageExistenceChecker tag flag st = (Inr (\<not> truthy (src tag)), st)"
| "check ImageExtensionChecker tag flag st =
     (case src tag of
        None \<Rightarrow> (Inl AttributeError, st)
      | Some img \<Rightarrow> (Inr (endswith img prohibited_extensions), st))"
| "check NewsPageLogoChecker tag flag st = (Inr (parent_name tag = ''a''), st)"
| "check ImageDuplicateChecker tag flag st =
     (let img = src tag;
          st1 = (if cls_instance st = None \<or> cls_instance st \<noteq> Some flag
                 then st\<lparr>cls_instance := Some flag, cls_duplicates := {}\<rparr>
                 else st)
      in if img \<in> cls_duplicates st1 then (Inr True, st1)
         else (Inr False, st1\<lparr>cls_duplicates := insert img (cls_duplicates st1)\<rparr>))"
| "check ImageDoubleColon tag flag st =
     (case src tag of
        None \<Rightarrow> (Inl TypeError, st)
      | Some img \<Rightarrow> (Inr (sublist ''::'' img), st))"
| "check ImageBBCComNotSrc tag flag st =
     (case src tag of
        None \<Rightarrow> (Inl TypeError, st)
      | Some img \<Rightarrow>
          (Inr (if sublist ''bbc'' img
                then (if srcset tag = None then True
                      else if sublist ''line'' img then True
                      else False)
                else False), st))"
| "check StatsResearchLinks tag flag st =
     (case src tag of
        None \<Rightarrow> (Inl TypeError, st)
      | Some img \<Rightarrow>
          (Inr (list_ex (\<lambda>site. sublist site img) statistics_collection_sites), st))"
| "check Icons tag flag st =
     (case src tag of
        None \<Rightarrow> (Inl TypeError, st)
      | Some img \<Rightarrow> (Inr (re_search icons_pattern img), st))"
| "check CaptionHrefChecker tag flag st =
     (case alt tag of
        None \<Rightarrow> (Inr False, st)
      | Some caption \<Rightarrow>
          (if caption \<noteq> [] then (Inr (sublist ''href'' caption), st)
           else (Inr False, st)))"

text \<open>
  The loop shared by the three checking functions: the first check that returns
  \<open>True\<close> makes the result \<open>False\<close> and no later check runs.
\<close>

fun run_checks :: "checker list \<Rightarrow> img_tag \<Rightarrow> nat \<Rightarrow> checker_state
    \<Rightarrow> (py_exception + bool) \<times> checker_state" where
  "run_checks [] tag flag st = (Inr True, st)"
| "run_checks (c # cs) tag flag st =
     (case check c tag flag st of
        (Inl e, st1) \<Rightarrow> (Inl e, st1)
      | (Inr True, st1) \<Rightarrow> (Inr False, st1)
      | (Inr False, st1) \<Rightarrow> run_checks cs tag flag st1)"

definition classes_to_check :: "checker list" where
  "classes_to_check =
     [NoImageExistenceChecker, ImageExtensionChecker, NewsPageLogoChecker,
      ImageDuplicateChecker, ImageDoubleColon, ImageBBCComNotSrc, StatsResearchLinks,
      Icons]"

definition html_image_checker :: "img_tag \<Rightarrow> nat \<Rightarrow> checker_state
    \<Rightarrow> (py_exception + bool) \<times> checker_state" where
  "html_image_checker tag flag st = run_checks classes_to_check tag flag st"

definition html_caption_checker :: "img_tag \<Rightarrow> nat \<Rightarrow> checker_state
    \<Rightarrow> (py_exception + bool) \<times> checker_state" where
  "html_caption_checker tag flag st = run_checks [CaptionHrefChecker] tag flag st"

definition html_data_checker :: "img_tag \<Rightarrow> nat \<Rightarrow> checker_state
    \<Rightarrow> (py_exception + bool) \<times> checker_state" where
  "html_data_checker tag flag st =
     (case html_image_checker tag flag st of
        (Inl e, st1) \<Rightarrow> (Inl e, st1)
      | (Inr False, st1) \<Rightarrow> (Inr False, st1)
      | (Inr True, st1) \<Rightarrow>
          (case html_caption_checker tag flag st1 of
             (Inl e, st2) \<Rightarrow> (Inl e, st2)
           | (Inr False, st2) \<Rightarrow> (Inr False, st2)
           | (Inr True, st2) \<Rightarrow> (Inr True, st2)))"


section \<open>The environment: network, date parser, URL parser, text extraction\<close>

text \<open>
  A parsed HTML page as \<open>web_parser.py\<close> reads it: the \<open>img\<close> tags and the
  \<open>href\<close> attributes of the \<open>a\<close> tags in document order, and what the five
  description extractors look up. For the three lookups through \<open>find\<close>,
  \<open>None\<close> stands for a lookup that raises (element or attribute missing). A child
  element read as \<open>soup.title\<close> or \<open>item.link\<close> is an \<open>xml_field\<close>: \<open>NoTag\<close>
  when the element is missing, else \<open>Tag s\<close> with \<open>s\<close> its \<open>.string\<close>.
\<close>

datatype xml_field = NoTag | Tag "string option"

record soup =
  img_tags :: "img_tag list"
  a_hrefs :: "string option list"
  meta_description :: "string option"
  p_lead :: "string option"
  og_description :: "string option"
  title_tag :: xml_field
  h2_tag :: xml_field

record response =
  status_code :: nat
  content :: soup

record datetime =
  year :: nat
  month :: nat
  day :: nat
  hour :: nat
  minute :: nat
  second :: nat
  microsecond :: nat

text \<open>
  The libraries the code calls are parameters of the model: \<open>requests.get\<close> (the
  response, its content already parsed, or the exception raised),
  \<open>dateutil.parser.parse(_, ignoretz=True)\<close>, \<open>urllib.parse.urlparse\<close> (scheme
  and netloc) and \<open>BeautifulSoup(_, "lxml").get_text()\<close>.
\<close>

record env =
  requests_get :: "string \<Rightarrow> py_exception + response"
  dateutil_parse :: "string \<Rightarrow> py_exception + datetime"
  urlparse :: "string \<Rightarrow> string \<times> string"
  get_text :: "string \<Rightarrow> string"

text \<open>\<open>requests.get(None)\<close> raises \<open>MissingSchema\<close>.\<close>

definition requests_get_opt :: "env \<Rightarrow> string option \<Rightarrow> py_exception + response" where
  "requests_get_opt e u = (case u of None \<Rightarrow> Inl MissingSchema | Some s \<Rightarrow> requests_get e s)"

text \<open>\<open>dateutil.parser.parse(None)\<close> raises \<open>TypeError\<close>.\<close>

definition dateutil_parser_parse :: "env \<Rightarrow> string option \<Rightarrow> py_exception + datetime" where
  "dateutil_parser_parse e s = (case s of None \<Rightarrow> Inl TypeError | Some x \<Rightarrow> dateutil_parse e x)"

subsection \<open>Formatting numbers and dates\<close>

definition digit_char :: "nat \<Rightarrow> char" where
  "digit_char n = ''0123456789'' ! n"

fun str_nat :: "nat \<Rightarrow> string" where
  "str_nat n = (if n < 10 then [digit_char n] else str_nat (n div 10) @ [digit_char (n mod 10)])"

declare str_nat.simps [simp del]

definition zfill :: "nat \<Rightarrow> string \<Rightarrow> string" where
  "zfill w s = replicate (w - length s) CHR ''0'' @ s"

text \<open>\<open>str(d.date())\<close>: \<^verbatim>\<open>%04d-%02d-%02d\<close>.\<close>

definition str_date :: "datetime \<Rightarrow> string" where
  "str_date d =
     zfill 4 (str_nat (year d)) @ ''-'' @ zfill 2 (str_nat (month d)) @ ''-''
       @ zfill 2 (str_nat (day d))"

text \<open>\<open>str(d)\<close> of a datetime without time zone: the microseconds only when not zero.\<close>

definition str_datetime :: "datetime \<Rightarrow> string" where
  "str_datetime d =
     str_date d @ '' '' @ zfill 2 (str_nat (hour d)) @ '':'' @ zfill 2 (str_nat (minute d))
       @ '':'' @ zfill 2 (str_nat (second d))
       @ (if microsecond d \<noteq> 0 then ''.'' @ zfill 6 (str_nat (microsecond d)) else [])"

subsection \<open>\<open>re.sub("<.*?>", "", s)\<close>\<close>

text \<open>
  \<open>tag_end cs\<close> is the text after the first \<open>>\<close> of \<open>cs\<close> when no line break
  comes before it (\<open>.\<close> does not match a line break), the rest after a match of
  \<^verbatim>\<open><.*?>\<close> whose \<open><\<close> is just before \<open>cs\<close>.
\<close>

fun tag_end :: "string \<Rightarrow> string option" where
  "tag_end [] = None"
| "tag_end (c # cs) =
     (if c = CHR ''>'' then Some cs else if c = newline then None else tag_end cs)"

lemma tag_end_length: "tag_end cs = Some rest \<Longrightarrow> length rest < length cs"
  by (induction cs) (auto split: if_splits)

function re_sub_tags :: "string \<Rightarrow> string" where
  "re_sub_tags [] = []"
| "re_sub_tags (c # cs) =
     (if c = CHR ''<'' then
        (case tag_end cs of
           Some rest \<Rightarrow> re_sub_tags rest
         | None \<Rightarrow> c # re_sub_tags cs)
      else c # re_sub_tags cs)"
  by pat_completeness auto
termination
  by (relation "measure length") (auto dest: tag_end_length)

section \<open>\<open>web_parser.py\<close>\<close>

text \<open>
  A \<open>WebParser\<close> object: its identity (the instance flag it passes to the
  checkers), its \<open>url\<close> and its \<open>soup\<close>.
\<close>

record web_parser =
  ident :: nat
  url :: string
  page :: soup

text \<open>\<open>WebParser.__init__\<close>: nothing catches what \<open>requests.get\<close> raises.\<close>

definition WebParser_init :: "env \<Rightarrow> nat \<Rightarrow> string option \<Rightarrow> py_exception + web_parser" where
  "WebParser_init e flag u =
     (case u of
        None \<Rightarrow> Inl MissingSchema
      | Some s \<Rightarrow>
          (case requests_get e s of
             Inl exc \<Rightarrow> Inl exc
           | Inr resp \<Rightarrow> Inr \<lparr>ident = flag, url = s, page = content resp\<rparr>))"

definition get_nested_url :: "env \<Rightarrow> img_tag \<Rightarrow> string \<Rightarrow> py_exception + string option" where
  "get_nested_url e tag page_url =
     (let domain = urlparse e page_url in
      case src tag of
        None \<Rightarrow> Inl TypeError
      | Some image_url \<Rightarrow>
          (let nested_url = fst domain @ ''://'' @ snd domain @ ''/'' @ image_url in
           case requests_get e nested_url of
             Inl exc \<Rightarrow> Inl exc
           | Inr resp \<Rightarrow> Inr (if status_code resp = 404 then None else Some nested_url)))"

text \<open>
  \<open>get_img_data\<close>: the probe of the image URL catches \<open>MissingSchema\<close>,
  \<open>InvalidSchema\<close> and \<open>ConnectionError\<close> only, and the request of
  \<open>get_nested_url\<close> is outside the \<open>try\<close>.
\<close>

definition get_img_data :: "env \<Rightarrow> img_tag \<Rightarrow> nat \<Rightarrow> string \<Rightarrow> checker_state
    \<Rightarrow> (py_exception + string option \<times> string option) \<times> checker_state" where
  "get_img_data e tag flag page_url st =
     (case html_data_checker tag flag st of
        (Inl exc, st1) \<Rightarrow> (Inl exc, st1)
      | (Inr False, st1) \<Rightarrow> (Inr (None, None), st1)
      | (Inr True, st1) \<Rightarrow>
          (case get_nested_url e tag page_url of
             Inl exc \<Rightarrow> (Inl exc, st1)
           | Inr nested_url \<Rightarrow>
               (let image_url =
                      (case nested_url of
                         None \<Rightarrow> src tag
                       | Some n \<Rightarrow> if n \<noteq> [] \<and> endswith n [''jpg'', ''png'']
                                   then Some n else src tag)
                in case requests_get_opt e image_url of
                     Inl MissingSchema \<Rightarrow> (Inr (None, None), st1)
                   | Inl InvalidSchema \<Rightarrow> (Inr (None, None), st1)
                   | Inl ConnectionError \<Rightarrow> (Inr (None, None), st1)
                   | Inl exc \<Rightarrow> (Inl exc, st1)
                   | Inr resp \<Rightarrow> (Inr (image_url, alt tag), st1))))"

text \<open>
  One round of the loop of \<open>_collect_img_tag_images\<close>: the tag's data is appended
  to \<open>images_container\<close> when its URL is not empty.
\<close>

definition scan_tag :: "env \<Rightarrow> web_parser \<Rightarrow> img_tag \<Rightarrow> (string \<times> string option) list
    \<Rightarrow> checker_state \<Rightarrow> (py_exception + (string \<times> string option) list) \<times> checker_state" where
  "scan_tag e p tag images_container st =
     (case get_img_data e tag (ident p) (url p) st of
        (Inl exc, st1) \<Rightarrow> (Inl exc, st1)
      | (Inr (image_url, caption), st1) \<Rightarrow>
          (case image_url of
             None \<Rightarrow> (Inr images_container, st1)
           | Some u \<Rightarrow> (Inr (if u \<noteq> [] then images_container @ [(u, caption)]
                              else images_container), st1)))"

fun scan_tags :: "env \<Rightarrow> web_parser \<Rightarrow> img_tag list \<Rightarrow> (string \<times> string option) list
    \<Rightarrow> checker_state \<Rightarrow> (py_exception + (string \<times> string option) list) \<times> checker_state" where
  "scan_tags e p [] images_container st = (Inr images_container, st)"
| "scan_tags e p (tag # tags) images_container st =
     (case scan_tag e p tag images_container st of
        (Inl exc, st1) \<Rightarrow> (Inl exc, st1)
      | (Inr images1, st1) \<Rightarrow> scan_tags e p tags images1 st1)"

definition collect_img_tag_images :: "env \<Rightarrow> web_parser \<Rightarrow> checker_state
    \<Rightarrow> (py_exception + (string \<times> string option) list) \<times> checker_state" where
  "collect_img_tag_images e p st = scan_tags e p (img_tags (page p)) [] st"

fun a_href_images :: "string option list \<Rightarrow> (string \<times> string option) list" where
  "a_href_images [] = []"
| "a_href_images (None # hs) = a_href_images hs"
| "a_href_images (Some a_href # hs) =
     (if a_href \<noteq> [] \<and> endswith a_href [''.jpg'', ''.png'']
      then (a_href, Some []) # a_href_images hs
      else a_href_images hs)"

definition collect_a_href_tag_images :: "web_parser \<Rightarrow> (string \<times> string option) list" where
  "collect_a_href_tag_images p = a_href_images (a_hrefs (page p))"

definition form_img_data :: "env \<Rightarrow> web_parser \<Rightarrow> checker_state
    \<Rightarrow> (py_exception + (string \<times> string option) list) \<times> checker_state" where
  "form_img_data e p st =
     (case collect_img_tag_images e p st of
        (Inl exc, st1) \<Rightarrow> (Inl exc, st1)
      | (Inr images, st1) \<Rightarrow> (Inr (images @ collect_a_href_tag_images p), st1))"

text \<open>
  The description formers, each wrapped by \<open>suppress_exceptions\<close>: an exception
  becomes \<open>None\<close>.
\<close>

definition string_of_field :: "xml_field \<Rightarrow> string option" where
  "string_of_field f = (case f of NoTag \<Rightarrow> None | Tag s \<Rightarrow> s)"

definition description_formers :: "(soup \<Rightarrow> string option) list" where
  "description_formers =
     [meta_description,
      p_lead,
      (\<lambda>s. map_option re_sub_tags (og_description s)),
      (\<lambda>s. string_of_field (title_tag s)),
      (\<lambda>s. string_of_field (h2_tag s))]"

fun first_description :: "(soup \<Rightarrow> string option) list \<Rightarrow> soup \<Rightarrow> string option" where
  "first_description [] s = None"
| "first_description (former # formers) s =
     (if truthy (former s) then former s else first_description formers s)"

text \<open>
  \<open>WebParser.form_description\<close>: when no former finds a description the last line
  reads \<open>self.soup.title.string\<close> unprotected, which raises when the page has no
  title and may be \<open>None\<close>.
\<close>

definition form_description :: "web_parser \<Rightarrow> py_exception + string option" where
  "form_description p =
     (case first_description description_formers (page p) of
        Some d \<Rightarrow> Inr (Some d)
      | None \<Rightarrow> (case title_tag (page p) of
          NoTag \<Rightarrow> Inl AttributeError
        | Tag s \<Rightarrow> Inr s))"

section \<open>\<open>news_object.py\<close>\<close>

text \<open>
  Names follow the source, without the leading underscore of private names
  (\<open>obj_title\<close> is \<open>_title\<close>, \<open>date_of\<close> the \<open>date\<close> property). An
  \<open>item\<close> of the feed: its child elements as the code reads them.
\<close>

record rss_item =
  item_title :: xml_field
  item_pubDate :: xml_field
  item_link :: xml_field
  item_description :: xml_field

text \<open>
  A \<open>NewsObject\<close> after \<open>__init__\<close>. \<open>img_data_container\<close> is \<open>None\<close> when
  the item has no \<open>link\<close> element; then \<open>_html_url\<close> and \<open>_parser\<close> were never
  assigned, here \<open>None\<close>.
\<close>

record news_object =
  obj_title :: "string option"
  certain_rss_news :: rss_item
  img_data_container :: "(string \<times> string option) list option"
  html_url :: "string option"
  parser :: "web_parser option"

text \<open>The \<open>news_container\<close> dictionary; \<open>links\<close> keeps its keys in insertion order.\<close>

record news_container =
  feed :: string
  title :: "string option"
  date :: string
  link :: string
  description :: string
  links :: "(string \<times> string) list"

definition no_link_object :: "string option \<Rightarrow> rss_item \<Rightarrow> news_object" where
  "no_link_object t item =
     \<lparr>obj_title = t, certain_rss_news = item, img_data_container = None,
      html_url = None, parser = None\<rparr>"

definition linked_object :: "string option \<Rightarrow> rss_item \<Rightarrow> web_parser
    \<Rightarrow> (string \<times> string option) list \<Rightarrow> news_object" where
  "linked_object t item p images =
     \<lparr>obj_title = t, certain_rss_news = item, img_data_container = Some images,
      html_url = Some (url p), parser = Some p\<rparr>"

text \<open>
  \<open>NewsObject.__init__\<close> with \<open>_collect_img_data\<close>, run without interruption in
  the class state \<open>st\<close>; \<open>flag\<close> is the identity of the \<open>WebParser\<close> it
  creates. Only the \<open>AttributeError\<close> of a missing \<open>link\<close> element is caught.
\<close>

definition NewsObject_init :: "env \<Rightarrow> nat \<Rightarrow> string option \<Rightarrow> rss_item \<Rightarrow> checker_state
    \<Rightarrow> (py_exception + news_object) \<times> checker_state" where
  "NewsObject_init e flag t item st =
     (case item_link item of
        NoTag \<Rightarrow> (Inr (no_link_object t item), st)
      | Tag u \<Rightarrow>
          (case WebParser_init e flag u of
             Inl exc \<Rightarrow> (Inl exc, st)
           | Inr p \<Rightarrow>
               (case form_img_data e p st of
                  (Inl exc, st1) \<Rightarrow> (Inl exc, st1)
                | (Inr images, st1) \<Rightarrow> (Inr (linked_object t item p images), st1))))"

text \<open>The \<open>date\<close> property.\<close>

definition date_of :: "env \<Rightarrow> news_object \<Rightarrow> py_exception + string" where
  "date_of e obj =
     (case item_pubDate (certain_rss_news obj) of
        NoTag \<Rightarrow> Inl AttributeError
      | Tag date_time_str \<Rightarrow>
          (case dateutil_parser_parse e date_time_str of
             Inl exc \<Rightarrow> Inl exc
           | Inr date_time_obj \<Rightarrow> Inr (str_datetime date_time_obj)))"

definition no_link_text :: string where
  "no_link_text = ''Rss news doesn'' @ [CHR 0x27] @ ''t provide link''"

text \<open>
  \<open>_form_header\<close>: the values of \<open>feed\<close>, \<open>title\<close>, \<open>date\<close> and \<open>link\<close>, in
  the order the code computes them. \<open>None + "\n"\<close> raises \<open>TypeError\<close>.
\<close>

definition form_header :: "env \<Rightarrow> news_object
    \<Rightarrow> py_exception + string \<times> string option \<times> string \<times> string" where
  "form_header e obj =
     (case obj_title obj of
        None \<Rightarrow> Inl TypeError
      | Some t \<Rightarrow>
     (case item_title (certain_rss_news obj) of
        NoTag \<Rightarrow> Inl AttributeError
      | Tag title_string \<Rightarrow>
     (case date_of e obj of
        Inl exc \<Rightarrow> Inl exc
      | Inr d \<Rightarrow>
     (case (if img_data_container obj \<noteq> None
            then (case item_link (certain_rss_news obj) of
                    NoTag \<Rightarrow> Inl AttributeError
                  | Tag s \<Rightarrow> Inr s)
            else Inr (Some no_link_text)) of
        Inl exc \<Rightarrow> Inl exc
      | Inr None \<Rightarrow> Inl TypeError
      | Inr (Some news_link) \<Rightarrow>
          Inr (t @ [newline], title_string, d, news_link @ [newline])))))"

text \<open>
  The marker of one image, \<^verbatim>\<open>f"[image {counter}: {caption}][{counter}]"\<close>, after
  \<open>caption = caption if caption else "no description"\<close>.
\<close>

definition caption_or_no_description :: "string option \<Rightarrow> string" where
  "caption_or_no_description caption =
     (case caption of
        None \<Rightarrow> ''no description''
      | Some c \<Rightarrow> if c \<noteq> [] then c else ''no description'')"

definition image_marker :: "nat \<Rightarrow> string option \<Rightarrow> string" where
  "image_marker counter caption =
     ''[image '' @ str_nat counter @ '': '' @ caption_or_no_description caption
       @ ''][''  @ str_nat counter @ '']''"

fun image_markers :: "nat \<Rightarrow> (string \<times> string option) list \<Rightarrow> string" where
  "image_markers counter [] = []"
| "image_markers counter ((image_url, caption) # rest) =
     image_marker counter caption @ image_markers (Suc counter) rest"

text \<open>
  \<open>self._parser.form_description() + "\n"\<close>: \<open>AttributeError\<close> when the object
  has no \<open>_parser\<close>, \<open>TypeError\<close> when the page description is \<open>None\<close>.
\<close>

definition parser_description :: "news_object \<Rightarrow> py_exception + string" where
  "parser_description obj =
     (case parser obj of
        None \<Rightarrow> Inl AttributeError
      | Some p \<Rightarrow>
          (case form_description p of
             Inl exc \<Rightarrow> Inl exc
           | Inr None \<Rightarrow> Inl TypeError
           | Inr (Some d) \<Rightarrow> Inr (d @ [newline])))"

text \<open>The string \<open>_form_description\<close> builds before it is handed to \<open>get_text\<close>.\<close>

definition description_text :: "news_object \<Rightarrow> py_exception + string" where
  "description_text obj =
     (let markers = (case img_data_container obj of
                       None \<Rightarrow> []
                     | Some images \<Rightarrow> image_markers 2 images)
      in case (case item_description (certain_rss_news obj) of
                 NoTag \<Rightarrow> parser_description obj
               | Tag None \<Rightarrow> parser_description obj
               | Tag (Some rss_description) \<Rightarrow> Inr (re_sub_tags rss_description @ [newline])) of
           Inl exc \<Rightarrow> Inl exc
         | Inr body \<Rightarrow> Inr (markers @ body))"

definition form_description_field :: "env \<Rightarrow> news_object \<Rightarrow> py_exception + string" where
  "form_description_field e obj =
     (case description_text obj of
        Inl exc \<Rightarrow> Inl exc
      | Inr d \<Rightarrow> Inr (get_text e d))"

text \<open>\<open>_form_links\<close>: \<open>links.update({key: value})\<close> is \<^const>\<open>AList.update\<close>.\<close>

definition link_key :: "nat \<Rightarrow> string" where
  "link_key counter = ''['' @ str_nat counter @ '']''"

fun image_links :: "nat \<Rightarrow> (string \<times> string option) list \<Rightarrow> (string \<times> string) list
    \<Rightarrow> (string \<times> string) list" where
  "image_links counter [] ls = ls"
| "image_links counter ((image_url, caption) # rest) ls =
     image_links (Suc counter) rest (AList.update (link_key counter) (image_url @ '' (image)'') ls)"

definition form_links :: "news_object \<Rightarrow> py_exception + (string \<times> string) list" where
  "form_links obj =
     (case img_data_container obj of
        Some images \<Rightarrow>
          (case html_url obj of
             None \<Rightarrow> Inl TypeError
           | Some u \<Rightarrow> Inr (image_links 2 images (AList.update ''[1]'' (u @ '' (link)'') [])))
      | None \<Rightarrow> Inr (AList.update ''[1]'' no_link_text []))"

text \<open>\<open>NewsObject.form_news\<close>: header, description, links, in this order.\<close>

definition NewsObject_form_news :: "env \<Rightarrow> news_object \<Rightarrow> py_exception + news_container" where
  "NewsObject_form_news e obj =
     (case form_header e obj of
        Inl exc \<Rightarrow> Inl exc
      | Inr (f, t, d, l) \<Rightarrow>
     (case form_description_field e obj of
        Inl exc \<Rightarrow> Inl exc
      | Inr ds \<Rightarrow>
     (case form_links obj of
        Inl exc \<Rightarrow> Inl exc
      | Inr ls \<Rightarrow>
          Inr \<lparr>feed = f, title = t, date = d, link = l, description = ds, links = ls\<rparr>)))"

section \<open>\<open>parser_management.py\<close>: the news former\<close>

record news_former =
  rss_title :: "string option"
  rss_items :: "rss_item list"
  news_limit :: "int option"
  news_date :: "string option"

text \<open>
  \<open>_form_news_limit\<close>: \<open>int(self._news_limit) if self._news_limit else
  self._news_limit\<close> leaves an integer limit as it is.
\<close>

definition form_news_limit :: "news_former \<Rightarrow> 'a list \<Rightarrow> int" where
  "form_news_limit former list_of_news =
     (let news_on_page = int (length list_of_news) in
      case news_limit former of
        None \<Rightarrow> news_on_page
      | Some l \<Rightarrow> if l > news_on_page then news_on_page else l)"

text \<open>The slice \<open>xs[:k]\<close>; a negative \<open>k\<close> counts from the end.\<close>

definition slice_to :: "'a list \<Rightarrow> int \<Rightarrow> 'a list" where
  "slice_to xs k = (if 0 \<le> k then take (nat k) xs else take (nat (int (length xs) + k)) xs)"

definition publication_date :: "env \<Rightarrow> rss_item \<Rightarrow> py_exception + string" where
  "publication_date e news =
     (case item_pubDate news of
        NoTag \<Rightarrow> Inl AttributeError
      | Tag s \<Rightarrow>
          (case dateutil_parser_parse e s of
             Inl exc \<Rightarrow> Inl exc
           | Inr d \<Rightarrow> Inr (str_date d)))"

text \<open>The list comprehension of the publication dates: the first exception ends it.\<close>

fun publication_dates :: "env \<Rightarrow> rss_item list \<Rightarrow> py_exception + string list" where
  "publication_dates e [] = Inr []"
| "publication_dates e (news # rest) =
     (case publication_date e news of
        Inl exc \<Rightarrow> Inl exc
      | Inr d \<Rightarrow>
          (case publication_dates e rest of
             Inl exc \<Rightarrow> Inl exc
           | Inr ds \<Rightarrow> Inr (d # ds)))"

definition no_news_message :: string where
  "no_news_message = ''error: no news for the specified date''"

text \<open>
  The loop over \<open>enumerate(list_of_publication_dates)\<close> that keeps
  \<open>list_of_all_news[news_number]\<close> when the date is the wanted one.
\<close>

fun with_suitable_date :: "string \<Rightarrow> string list \<Rightarrow> 'a list \<Rightarrow> 'a list" where
  "with_suitable_date reformatted_date (d # ds) (news # rest) =
     (if reformatted_date = d then news # with_suitable_date reformatted_date ds rest
      else with_suitable_date reformatted_date ds rest)"
| "with_suitable_date reformatted_date ds rest = []"

definition form_news_list_by_date :: "env \<Rightarrow> news_former \<Rightarrow> string \<Rightarrow> rss_item list
    \<Rightarrow> py_exception + rss_item list" where
  "form_news_list_by_date e former nd list_of_all_news =
     (case dateutil_parse e nd of
        Inl exc \<Rightarrow> Inl exc
      | Inr target \<Rightarrow>
          (let reformatted_date = str_date target in
           case publication_dates e list_of_all_news of
             Inl exc \<Rightarrow> Inl exc
           | Inr list_of_publication_dates \<Rightarrow>
               if reformatted_date \<notin> set list_of_publication_dates
               then Inl (ValueError no_news_message)
               else (let suitable = with_suitable_date reformatted_date
                                      list_of_publication_dates list_of_all_news
                     in Inr (slice_to suitable (form_news_limit former suitable)))))"

definition form_news_list :: "env \<Rightarrow> news_former \<Rightarrow> py_exception + rss_item list" where
  "form_news_list e former =
     (let list_of_all_news = rss_items former in
      case news_date former of
        None \<Rightarrow> Inr (slice_to list_of_all_news (form_news_limit former list_of_all_news))
      | Some nd \<Rightarrow> form_news_list_by_date e former nd list_of_all_news)"

subsection \<open>The thread pool\<close>

text \<open>
  \<open>executor.submit(NewsObject, title, item, WebParser, "lxml")\<close> runs
  \<open>NewsObject.__init__\<close> in a worker thread. A task is \<open>Submitted\<close>, then (for an
  item with a link whose page was fetched) \<open>Scanning\<close> the \<open>img\<close> tags that are
  left with the images collected so far, then \<open>Finished\<close> with the object or the
  exception its future holds. One step of a task is the page fetch, or one round of
  the loop of \<open>_collect_img_tag_images\<close>, or the end of \<open>form_img_data\<close>; the
  threads interleave between steps and share the class state of the duplicate
  checker. Real threads may switch inside a step as well; the schedules here are
  those that switch between steps. The task at position \<open>i\<close> of the pool creates the parser of identity
  \<open>i\<close>.
\<close>

datatype task =
    Submitted "string option" rss_item
  | Scanning "string option" rss_item web_parser "img_tag list" "(string \<times> string option) list"
  | Finished "py_exception + news_object"

fun task_step :: "env \<Rightarrow> nat \<Rightarrow> task \<Rightarrow> checker_state \<Rightarrow> task \<times> checker_state" where
  "task_step e flag (Submitted t item) st =
     (case item_link item of
        NoTag \<Rightarrow> (Finished (Inr (no_link_object t item)), st)
      | Tag u \<Rightarrow>
          (case WebParser_init e flag u of
             Inl exc \<Rightarrow> (Finished (Inl exc), st)
           | Inr p \<Rightarrow> (Scanning t item p (img_tags (page p)) [], st)))"
| "task_step e flag (Scanning t item p [] images) st =
     (Finished (Inr (linked_object t item p (images @ collect_a_href_tag_images p))), st)"
| "task_step e flag (Scanning t item p (tag # tags) images) st =
     (case scan_tag e p tag images st of
        (Inl exc, st1) \<Rightarrow> (Finished (Inl exc), st1)
      | (Inr images1, st1) \<Rightarrow> (Scanning t item p tags images1, st1))"
| "task_step e flag (Finished r) st = (Finished r, st)"

text \<open>
  A task left alone until its future is set; for a task that has not started this is
  \<open>NewsObject.__init__\<close> itself.
\<close>

fun finish_scan :: "env \<Rightarrow> string option \<Rightarrow> rss_item \<Rightarrow> web_parser \<Rightarrow> img_tag list
    \<Rightarrow> (string \<times> string option) list \<Rightarrow> checker_state
    \<Rightarrow> (py_exception + news_object) \<times> checker_state" where
  "finish_scan e t item p [] images st =
     (Inr (linked_object t item p (images @ collect_a_href_tag_images p)), st)"
| "finish_scan e t item p (tag # tags) images st =
     (case scan_tag e p tag images st of
        (Inl exc, st1) \<Rightarrow> (Inl exc, st1)
      | (Inr images1, st1) \<Rightarrow> finish_scan e t item p tags images1 st1)"

fun task_finish :: "env \<Rightarrow> nat \<Rightarrow> task \<Rightarrow> checker_state
    \<Rightarrow> (py_exception + news_object) \<times> checker_state" where
  "task_finish e flag (Finished r) st = (r, st)"
| "task_finish e flag (Scanning t item p tags images) st = finish_scan e t item p tags images st"
| "task_finish e flag (Submitted t item) st = NewsObject_init e flag t item st"

text \<open>
  A schedule is the list of the positions of the tasks that take the next step, one
  after the other; a position outside the pool or of a finished task changes
  nothing.
\<close>

definition pool_step :: "env \<Rightarrow> nat \<Rightarrow> task list \<times> checker_state \<Rightarrow> task list \<times> checker_state" where
  "pool_step e i pool =
     (case pool of (tasks, st) \<Rightarrow>
        if i < length tasks
        then (case task_step e i (tasks ! i) st of (t1, st1) \<Rightarrow> (tasks[i := t1], st1))
        else (tasks, st))"

fun run_schedule :: "env \<Rightarrow> nat list \<Rightarrow> task list \<times> checker_state
    \<Rightarrow> task list \<times> checker_state" where
  "run_schedule e [] pool = pool"
| "run_schedule e (i # sched) pool = run_schedule e sched (pool_step e i pool)"

text \<open>
  When the schedule is used up, the tasks that are not finished run to their end one
  after the other: every future is set before the pool is left.
\<close>

fun drain :: "env \<Rightarrow> nat \<Rightarrow> task list \<Rightarrow> checker_state
    \<Rightarrow> (py_exception + news_object) list \<times> checker_state" where
  "drain e i [] st = ([], st)"
| "drain e i (t # tasks) st =
     (case task_finish e i t st of
        (r, st1) \<Rightarrow> (case drain e (Suc i) tasks st1 of (rs, st2) \<Rightarrow> (r # rs, st2)))"

text \<open>
  \<open>executor_pool\<close>: the futures in the order of \<open>news_list\<close>, each with the result
  it holds once the pool has run under the schedule.
\<close>

definition executor_pool :: "env \<Rightarrow> nat list \<Rightarrow> string option \<Rightarrow> rss_item list \<Rightarrow> checker_state
    \<Rightarrow> (py_exception + news_object) list \<times> checker_state" where
  "executor_pool e sched t news_list st =
     (case run_schedule e sched (map (Submitted t) news_list, st) of
        (tasks, st1) \<Rightarrow> drain e 0 tasks st1)"

text \<open>
  The loop over \<open>executor_pool\<close>: \<open>executor_result.result()\<close> raises what the task
  raised, \<open>news_object.form_news()\<close> may raise, else the container is appended to
  \<open>news_storage\<close>.
\<close>

fun collect_results :: "env \<Rightarrow> (py_exception + news_object) list \<Rightarrow> news_container list
    \<Rightarrow> py_exception + news_container list" where
  "collect_results e [] news_storage = Inr news_storage"
| "collect_results e (executor_result # rest) news_storage =
     (case executor_result of
        Inl exc \<Rightarrow> Inl exc
      | Inr news_object \<Rightarrow>
          (case NewsObject_form_news e news_object of
             Inl exc \<Rightarrow> Inl exc
           | Inr container \<Rightarrow> collect_results e rest (news_storage @ [container])))"

text \<open>
  \<open>ParserNewsFormer.form_news\<close> under a schedule of the worker threads, started in
  the class state \<open>st\<close>.
\<close>

definition form_news :: "env \<Rightarrow> nat list \<Rightarrow> checker_state \<Rightarrow> news_former
    \<Rightarrow> py_exception + news_container list" where
  "form_news e sched st former =
     (case form_news_list e former of
        Inl exc \<Rightarrow> Inl exc
      | Inr news_list \<Rightarrow>
          collect_results e (fst (executor_pool e sched (rss_title former) news_list st)) [])"

section \<open>Notions used in the statements\<close>

text \<open>
  A future's result belongs to an item of the selection when it is an exception or an
  object made for this item and this feed title, with image data exactly when the
  item has a \<open>link\<close> element; a task belongs to the item when it works on it.
\<close>

definition result_of :: "string option \<Rightarrow> rss_item \<Rightarrow> py_exception + news_object \<Rightarrow> bool" where
  "result_of t item r =
     (case r of
        Inl exc \<Rightarrow> True
      | Inr obj \<Rightarrow> obj_title obj = t \<and> certain_rss_news obj = item
          \<and> (img_data_container obj = None) = (item_link item = NoTag))"

fun task_of :: "string option \<Rightarrow> rss_item \<Rightarrow> task \<Rightarrow> bool" where
  "task_of t item (Submitted t1 item1) = (t1 = t \<and> item1 = item)"
| "task_of t item (Scanning t1 item1 p tags images) =
     (t1 = t \<and> item1 = item \<and> item_link item \<noteq> NoTag)"
| "task_of t item (Finished r) = result_of t item r"

text \<open>
  The selection as the specification words it: the items whose publication date,
  date-only, is the wanted date (all items when no date is asked for), and of these
  the first \<open>limit\<close>.
\<close>

definition date_matches :: "env \<Rightarrow> string \<Rightarrow> rss_item \<Rightarrow> bool" where
  "date_matches e nd news =
     (case dateutil_parse e nd of
        Inl exc \<Rightarrow> False
      | Inr target \<Rightarrow> publication_date e news = Inr (str_date target))"

definition date_filtered :: "env \<Rightarrow> news_former \<Rightarrow> rss_item list" where
  "date_filtered e former =
     (case news_date former of
        None \<Rightarrow> rss_items former
      | Some nd \<Rightarrow> filter (date_matches e nd) (rss_items former))"

definition selection_size :: "env \<Rightarrow> news_former \<Rightarrow> nat" where
  "selection_size e former =
     (case news_limit former of
        None \<Rightarrow> length (date_filtered e former)
      | Some l \<Rightarrow> min (nat l) (length (date_filtered e former)))"

text \<open>
  The seen-set as the next duplicate check of the parser \<open>flag\<close> finds it: the
  set of the class when the class records this parser, the empty set when it records
  another one or none, since the check empties the set first.
\<close>

definition seen_set :: "nat \<Rightarrow> checker_state \<Rightarrow> string option set" where
  "seen_set flag st = (if cls_instance st = Some flag then cls_duplicates st else {})"











section \<open>Example inputs\<close>


definition fresh_state :: checker_state where
  "fresh_state = \<lparr>cls_instance = None, cls_duplicates = {}\<rparr>"

definition example_date :: datetime where
  "example_date =
     \<lparr>year = 2021, month = 1, day = 2, hour = 10, minute = 30, second = 0, microsecond = 0\<rparr>"

definition example_parse :: "string \<Rightarrow> py_exception + datetime" where
  "example_parse s =
     (if s = ''Sat, 02 Jan 2021 10:30:00 +0300'' then Inr example_date
      else if s = ''20210102'' then Inr (example_date\<lparr>hour := 0, minute := 0\<rparr>)
      else if s = ''20210103'' then Inr (example_date\<lparr>day := 3, hour := 0, minute := 0\<rparr>)
      else Inl ParserError)"

definition offline_env :: env where
  "offline_env =
     \<lparr>requests_get = (\<lambda>u. Inl ConnectionError),
      dateutil_parse = example_parse,
      urlparse = (\<lambda>u. (''http'', ''news.site'')),
      get_text = (\<lambda>s. s)\<rparr>"

definition plain_item :: "string \<Rightarrow> rss_item" where
  "plain_item t =
     \<lparr>item_title = Tag (Some t),
      item_pubDate = Tag (Some ''Sat, 02 Jan 2021 10:30:00 +0300''),
      item_link = NoTag,
      item_description = Tag (Some ''<p>Body</p>'')\<rparr>"

definition linked_item :: "string \<Rightarrow> rss_item" where
  "linked_item t = (plain_item t)\<lparr>item_link := Tag (Some ''http://news.site/a1'')\<rparr>"

definition plain_former :: news_former where
  "plain_former =
     \<lparr>rss_title = Some ''Feed'', rss_items = [plain_item ''First'', plain_item ''Second''],
      news_limit = Some 5, news_date = Some ''20210102''\<rparr>"

definition plain_container :: "string \<Rightarrow> news_container" where
  "plain_container t =
     \<lparr>feed = ''Feed'' @ [newline], title = Some t, date = ''2021-01-02 10:30:00'',
      link = no_link_text @ [newline], description = ''Body'' @ [newline],
      links = [(''[1]'', no_link_text)]\<rparr>"

definition other_day_former :: news_former where
  "other_day_former =
     \<lparr>rss_title = Some ''Feed'',
      rss_items = [plain_item ''1'', plain_item ''2'', plain_item ''3'', plain_item ''4'',
                   plain_item ''5''],
      news_limit = None, news_date = Some ''20210103''\<rparr>"

definition mixed_former :: news_former where
  "mixed_former =
     \<lparr>rss_title = Some ''Feed'', rss_items = [plain_item ''First'', linked_item ''Second''],
      news_limit = None, news_date = None\<rparr>"

definition bbc_plain_tag :: img_tag where
  "bbc_plain_tag =
     \<lparr>src = Some ''http://img.bbc.site/a.jpg'', alt = Some ''Sea'', srcset = None,
      parent_name = ''div''\<rparr>"

definition bbc_srcset_tag :: img_tag where
  "bbc_srcset_tag = bbc_plain_tag\<lparr>srcset := Some ''http://img.bbc.site/a.jpg 2x''\<rparr>"

definition photo_tag :: img_tag where
  "photo_tag =
     \<lparr>src = Some ''http://img.site/p.jpg'', alt = None, srcset = None, parent_name = ''p''\<rparr>"

definition empty_soup :: soup where
  "empty_soup =
     \<lparr>img_tags = [], a_hrefs = [], meta_description = None, p_lead = None,
      og_description = None, title_tag = NoTag, h2_tag = NoTag\<rparr>"

definition page_one :: soup where
  "page_one =
     empty_soup\<lparr>img_tags := [bbc_plain_tag, bbc_srcset_tag, photo_tag],
       a_hrefs := [Some ''http://img.site/p.jpg'', Some ''/about'', None],
       meta_description := Some ''Meta text'',
       title_tag := Tag (Some ''Page one'')\<rparr>"

definition page_two :: soup where
  "page_two = empty_soup\<lparr>title_tag := Tag (Some ''Page two'')\<rparr>"

definition online_get :: "string \<Rightarrow> py_exception + response" where
  "online_get u =
     (if u = ''http://news.site/a1'' then Inr \<lparr>status_code = 200, content = page_one\<rparr>
      else if u = ''http://news.site/a2'' then Inr \<lparr>status_code = 200, content = page_two\<rparr>
      else if u = ''http://img.bbc.site/a.jpg'' \<or> u = ''http://img.site/p.jpg''
        then Inr \<lparr>status_code = 200, content = empty_soup\<rparr>
      else if prefix ''http://news.site/http'' u
        then Inr \<lparr>status_code = 404, content = empty_soup\<rparr>
      else Inl ConnectionError)"

definition online_env :: env where
  "online_env =
     \<lparr>requests_get = online_get,
      dateutil_parse = example_parse,
      urlparse = (\<lambda>u. (''http'', ''news.site'')),
      get_text = (\<lambda>s. s)\<rparr>"

definition item_with_link :: "string \<Rightarrow> string \<Rightarrow> rss_item" where
  "item_with_link t u = (plain_item t)\<lparr>item_link := Tag (Some u)\<rparr>"

definition parser_one :: "nat \<Rightarrow> web_parser" where
  "parser_one flag = \<lparr>ident = flag, url = ''http://news.site/a1'', page = page_one\<rparr>"

definition same_page_items :: "rss_item list" where
  "same_page_items =
     [item_with_link ''A'' ''http://news.site/a1'', item_with_link ''B'' ''http://news.site/a1'']"

definition used_state :: checker_state where
  "used_state =
     \<lparr>cls_instance = Some 3, cls_duplicates = {Some ''http://img.site/p.jpg''}\<rparr>"

definition two_pages_former :: news_former where
  "two_pages_former =
     \<lparr>rss_title = Some ''Feed'',
      rss_items = [item_with_link ''A'' ''http://news.site/a1'',
                   item_with_link ''B'' ''http://news.site/a2''],
      news_limit = None, news_date = None\<rparr>"

text \<open>The objects and records the two pages give.\<close>

definition page_one_container :: news_container where
  "page_one_container =
     \<lparr>feed = ''Feed'' @ [newline], title = Some ''A'', date = ''2021-01-02 10:30:00'',
      link = ''http://news.site/a1'' @ [newline],
      description = ''[image 2: no description][2][image 3: no description][3]Body'' @ [newline],
      links = [(''[1]'', ''http://news.site/a1 (link)''),
               (''[2]'', ''http://img.site/p.jpg (image)''),
               (''[3]'', ''http://img.site/p.jpg (image)'')]\<rparr>"

definition page_two_container :: news_container where
  "page_two_container =
     \<lparr>feed = ''Feed'' @ [newline], title = Some ''B'', date = ''2021-01-02 10:30:00'',
      link = ''http://news.site/a2'' @ [newline],
      description = ''Body'' @ [newline],
      links = [(''[1]'', ''http://news.site/a2 (link)'')]\<rparr>"

definition page_one_object :: news_object where
  "page_one_object =
     linked_object (Some ''Feed'') (item_with_link ''A'' ''http://news.site/a1'') (parser_one 0)
       [(''http://img.site/p.jpg'', None), (''http://img.site/p.jpg'', Some [])]"

definition page_two_object :: news_object where
  "page_two_object =
     linked_object (Some ''Feed'') (item_with_link ''B'' ''http://news.site/a2'')
       \<lparr>ident = 1, url = ''http://news.site/a2'', page = page_two\<rparr> []"

definition bare_item :: rss_item where
  "bare_item = (plain_item ''Bare'')\<lparr>item_description := NoTag\<rparr>"





definition captioned_object :: news_object where
  "captioned_object =
     linked_object (Some ''Feed'') (item_with_link ''A'' ''http://news.site/a1'') (parser_one 0)
       [(''http://img.bbc.site/a.jpg'', Some ''Sea''), (''http://img.site/p.jpg'', None)]"

definition captioned_container :: news_container where
  "captioned_container =
     \<lparr>feed = ''Feed'' @ [newline], title = Some ''A'', date = ''2021-01-02 10:30:00'',
      link = ''http://news.site/a1'' @ [newline],
      description = ''[image 2: Sea][2][image 3: no description][3]Body'' @ [newline],
      links = [(''[1]'', ''http://news.site/a1 (link)''),
               (''[2]'', ''http://img.bbc.site/a.jpg (image)''),
               (''[3]'', ''http://img.site/p.jpg (image)'')]\<rparr>"

definition bracket_tag :: img_tag where
  "bracket_tag = photo_tag\<lparr>alt := Some ''x][7''\<rparr>"

definition bracket_object :: news_object where
  "bracket_object =
     linked_object (Some ''Feed'') (item_with_link ''A'' ''http://news.site/a1'') (parser_one 0)
       [(''http://img.site/p.jpg'', Some ''x][7'')]"

definition bracket_container :: news_container where
  "bracket_container =
     \<lparr>feed = ''Feed'' @ [newline], title = Some ''A'', date = ''2021-01-02 10:30:00'',
      link = ''http://news.site/a1'' @ [newline],
      description = ''[image 2: x][7][2]Body'' @ [newline],
      links = [(''[1]'', ''http://news.site/a1 (link)''),
               (''[2]'', ''http://img.site/p.jpg (image)'')]\<rparr>"

section \<open>The acceptance filter\<close>

lemma check_not_dup_state:
  "c \<noteq> ImageDuplicateChecker \<Longrightarrow> snd (check c tag flag st) = st"
  by (cases c) (auto split: option.splits)

lemma check_not_dup_value:
  "c \<noteq> ImageDuplicateChecker \<Longrightarrow> fst (check c tag flag st) = fst (check c tag flag1 st1)"
  by (cases c) (auto split: option.splits)












section \<open>The thread pool: what every schedule preserves\<close>

lemma finish_scan_scan_tags:
  "finish_scan e t item p tags images st =
     (case scan_tags e p tags images st of
        (Inl exc, st1) \<Rightarrow> (Inl exc, st1)
      | (Inr imgs, st1) \<Rightarrow>
          (Inr (linked_object t item p (imgs @ collect_a_href_tag_images p)), st1))"
  by (induction tags arbitrary: images st) (auto split: prod.splits sum.splits)

text \<open>
  Taking a step and then running to the end is running to the end: the steps cut
  \<open>NewsObject.__init__\<close> into pieces and change nothing else.
\<close>

lemma task_finish_step:
  "task_finish e flag (fst (task_step e flag tk st)) (snd (task_step e flag tk st))
     = task_finish e flag tk st"
proof (cases tk)
  case (Submitted t item)
  then show ?thesis
    by (auto simp: NewsObject_init_def form_img_data_def collect_img_tag_images_def
        finish_scan_scan_tags WebParser_init_def
        split: xml_field.splits sum.splits prod.splits option.splits)
next
  case (Scanning t item p tags images)
  then show ?thesis by (cases tags) (auto split: prod.splits sum.splits)
next
  case (Finished r)
  then show ?thesis by simp
qed

lemma length_pool_step: "length (fst (pool_step e i (tasks, st))) = length tasks"
  by (simp add: pool_step_def split: prod.splits)

lemma run_schedule_inv:
  assumes step: "\<And>i flag tk st. Q i tk \<Longrightarrow> Q i (fst (task_step e flag tk st))"
    and init: "\<forall>i<length tasks. Q i (tasks ! i)"
  shows "length (fst (run_schedule e sched (tasks, st))) = length tasks
    \<and> (\<forall>i<length tasks. Q i (fst (run_schedule e sched (tasks, st)) ! i))"
  using init
proof (induction sched arbitrary: tasks st)
  case Nil
  then show ?case by simp
next
  case (Cons k sched)
  obtain tasks1 st1 where p: "pool_step e k (tasks, st) = (tasks1, st1)"
    by (cases "pool_step e k (tasks, st)")
  have len: "length tasks1 = length tasks" using length_pool_step[of e k tasks st] p by simp
  have "\<forall>i<length tasks1. Q i (tasks1 ! i)"
  proof (intro allI impI)
    fix i assume i: "i < length tasks1"
    show "Q i (tasks1 ! i)"
    proof (cases "k < length tasks")
      case True
      then have t1: "tasks1 = tasks[k := fst (task_step e k (tasks ! k) st)]"
        using p by (auto simp: pool_step_def split: prod.splits)
      show ?thesis
      proof (cases "i = k")
        case True
        with t1 i len step[of k "tasks ! k" k st] Cons.prems show ?thesis by simp
      next
        case False
        with t1 i len Cons.prems show ?thesis by simp
      qed
    next
      case False
      then have "tasks1 = tasks" using p by (simp add: pool_step_def)
      with i Cons.prems show ?thesis by simp
    qed
  qed
  from Cons.IH[OF this, of st1] p len show ?case by simp
qed

lemma drain_inv:
  assumes fin: "\<And>i flag tk st. Q i tk \<Longrightarrow> R i (fst (task_finish e flag tk st))"
    and init: "\<forall>i<length tasks. Q (k + i) (tasks ! i)"
  shows "length (fst (drain e k tasks st)) = length tasks
    \<and> (\<forall>i<length tasks. R (k + i) (fst (drain e k tasks st) ! i))"
  using init
proof (induction tasks arbitrary: k st)
  case Nil
  then show ?case by simp
next
  case (Cons tk tasks)
  obtain r st1 where f: "task_finish e k tk st = (r, st1)" by (cases "task_finish e k tk st")
  obtain rs st2 where d: "drain e (Suc k) tasks st1 = (rs, st2)"
    by (cases "drain e (Suc k) tasks st1")
  have "\<forall>i<length tasks. Q (Suc k + i) (tasks ! i)"
    using Cons.prems by auto
  from Cons.IH[OF this, of st1] d
  have len: "length rs = length tasks" and rest: "\<forall>i<length tasks. R (Suc k + i) (rs ! i)"
    by auto
  have "Q k tk" using Cons.prems by force
  from fin[OF this, of k st] f have r: "R k r" by simp
  have "\<forall>i<length (tk # tasks). R (k + i) ((r # rs) ! i)"
  proof (intro allI impI)
    fix i assume "i < length (tk # tasks)"
    then show "R (k + i) ((r # rs) ! i)" using r rest by (cases i) auto
  qed
  with f d len show ?case by simp
qed

lemma executor_pool_inv:
  assumes step: "\<And>i flag tk st. Q i tk \<Longrightarrow> Q i (fst (task_step e flag tk st))"
    and fin: "\<And>i flag tk st. Q i tk \<Longrightarrow> R i (fst (task_finish e flag tk st))"
    and init: "\<forall>i<length news_list. Q i (Submitted t (news_list ! i))"
  shows "length (fst (executor_pool e sched t news_list st)) = length news_list
    \<and> (\<forall>i<length news_list. R i (fst (executor_pool e sched t news_list st) ! i))"
proof -
  let ?tasks = "map (Submitted t) news_list"
  obtain tasks1 st1 where rs: "run_schedule e sched (?tasks, st) = (tasks1, st1)"
    by (cases "run_schedule e sched (?tasks, st)")
  have "\<forall>i<length ?tasks. Q i (?tasks ! i)" using init by simp
  from run_schedule_inv[of Q e ?tasks sched st, OF step this] rs
  have len: "length tasks1 = length news_list" and q: "\<forall>i<length tasks1. Q (0 + i) (tasks1 ! i)"
    by auto
  from drain_inv[of Q R e tasks1 0 st1, OF fin q] len rs
  show ?thesis by (simp add: executor_pool_def)
qed

lemma task_of_step: "task_of t item tk \<Longrightarrow> task_of t item (fst (task_step e flag tk st))"
proof (cases tk)
  case (Submitted t1 item1)
  assume "task_of t item tk"
  with Submitted show ?thesis
    by (auto simp: no_link_object_def result_of_def split: xml_field.splits sum.splits)
next
  case (Scanning t1 item1 p tags images)
  assume "task_of t item tk"
  with Scanning show ?thesis
    by (cases tags) (auto simp: linked_object_def result_of_def split: prod.splits sum.splits)
next
  case (Finished r)
  assume "task_of t item tk"
  with Finished show ?thesis by simp
qed

lemma finish_scan_result:
  "item_link item \<noteq> NoTag \<Longrightarrow>
     result_of t item (fst (finish_scan e t item p tags images st))"
proof (induction tags arbitrary: images st)
  case Nil
  then show ?case by (simp add: result_of_def linked_object_def)
next
  case (Cons tag tags)
  obtain r st1 where s: "scan_tag e p tag images st = (r, st1)"
    by (cases "scan_tag e p tag images st")
  show ?case
  proof (cases r)
    case (Inl exc)
    with s show ?thesis by (simp add: result_of_def)
  next
    case (Inr images1)
    with s Cons.IH[OF Cons.prems, of images1 st1] show ?thesis by simp
  qed
qed

lemma NewsObject_init_result: "result_of t item (fst (NewsObject_init e flag t item st))"
  by (auto simp: NewsObject_init_def result_of_def linked_object_def no_link_object_def
      form_img_data_def split: xml_field.splits sum.splits prod.splits)

lemma task_of_finish: "task_of t item tk \<Longrightarrow> result_of t item (fst (task_finish e flag tk st))"
proof (cases tk)
  case (Submitted t1 item1)
  assume "task_of t item tk"
  with Submitted show ?thesis using NewsObject_init_result[of t item e flag st] by simp
next
  case (Scanning t1 item1 p tags images)
  assume "task_of t item tk"
  with Scanning show ?thesis using finish_scan_result[of item t e p tags images st] by simp
next
  case (Finished r)
  assume "task_of t item tk"
  with Finished show ?thesis by simp
qed

lemma executor_pool_results:
  "length (fst (executor_pool e sched t news_list st)) = length news_list
   \<and> (\<forall>i<length news_list.
        result_of t (news_list ! i) (fst (executor_pool e sched t news_list st) ! i))"
  by (rule executor_pool_inv[where Q = "\<lambda>i. task_of t (news_list ! i)"])
    (simp_all add: task_of_step task_of_finish)

lemma collect_results_Inr:
  "collect_results e rs acc = Inr out \<Longrightarrow>
     length out = length acc + length rs
     \<and> take (length acc) out = acc
     \<and> (\<forall>i<length rs. \<exists>obj. rs ! i = Inr obj
           \<and> NewsObject_form_news e obj = Inr (out ! (length acc + i)))"
proof (induction rs arbitrary: acc)
  case Nil
  then show ?case by simp
next
  case (Cons r rs)
  from Cons.prems obtain obj c where r: "r = Inr obj"
    and c: "NewsObject_form_news e obj = Inr c"
    and rest: "collect_results e rs (acc @ [c]) = Inr out"
    by (auto split: sum.splits)
  from Cons.IH[OF rest]
  have len: "length out = length acc + 1 + length rs"
    and pre: "take (length acc + 1) out = acc @ [c]"
    and nth: "\<forall>i<length rs. \<exists>obj. rs ! i = Inr obj
           \<and> NewsObject_form_news e obj = Inr (out ! (length acc + 1 + i))"
    by auto
  have acc: "take (length acc) out = acc"
    using pre by (metis append_eq_conv_conj length_append_singleton take_Suc_conv_app_nth
        Suc_eq_plus1 butlast_snoc butlast_take diff_add_inverse2 le_add1 len trans_le_add1)
  have c_at: "out ! length acc = c"
    using pre len by (metis Suc_eq_plus1 length_append_singleton lessI nth_append_length nth_take)
  have "\<exists>obj. (r # rs) ! i = Inr obj
           \<and> NewsObject_form_news e obj = Inr (out ! (length acc + i))"
    if "i < length (r # rs)" for i
  proof (cases i)
    case 0
    with r c c_at show ?thesis by simp
  next
    case (Suc j)
    with that nth show ?thesis by simp
  qed
  with len acc show ?case by simp
qed

lemma form_news_results:
  assumes l: "form_news_list e former = Inr news_list"
    and o: "form_news e sched st former = Inr out"
  shows "length out = length news_list
    \<and> (\<forall>i<length news_list. \<exists>obj.
          fst (executor_pool e sched (rss_title former) news_list st) ! i = Inr obj
          \<and> result_of (rss_title former) (news_list ! i) (Inr obj)
          \<and> NewsObject_form_news e obj = Inr (out ! i))"
proof -
  let ?rs = "fst (executor_pool e sched (rss_title former) news_list st)"
  have c: "collect_results e ?rs [] = Inr out" using l o by (simp add: form_news_def)
  note p = executor_pool_results[of e sched "rss_title former" news_list st]
  from collect_results_Inr[OF c] p
  have len: "length out = length news_list"
    and nth: "\<forall>i<length news_list. \<exists>obj. ?rs ! i = Inr obj
        \<and> NewsObject_form_news e obj = Inr (out ! i)"
    and res: "\<forall>i<length news_list. result_of (rss_title former) (news_list ! i) (?rs ! i)"
    by auto
  have "\<exists>obj. ?rs ! i = Inr obj \<and> result_of (rss_title former) (news_list ! i) (Inr obj)
      \<and> NewsObject_form_news e obj = Inr (out ! i)" if i: "i < length news_list" for i
  proof -
    from nth i obtain obj where "?rs ! i = Inr obj" "NewsObject_form_news e obj = Inr (out ! i)"
      by blast
    moreover from res i have "result_of (rss_title former) (news_list ! i) (?rs ! i)" by blast
    ultimately show ?thesis by auto
  qed
  with len show ?thesis by blast
qed

section \<open>The example feed without network\<close>

lemma str_nat_small: "n < 10 \<Longrightarrow> str_nat n = [digit_char n]"
  by (simp add: str_nat.simps)

lemma str_nat_large: "\<not> n < 10 \<Longrightarrow> str_nat n = str_nat (n div 10) @ [digit_char (n mod 10)]"
  by (subst str_nat.simps) simp

lemmas eval_str = str_nat_small str_nat_large digit_char_def zfill_def str_date_def
  str_datetime_def

lemma example_dates:
  "str_datetime example_date = ''2021-01-02 10:30:00''"
  "str_date example_date = ''2021-01-02''"
  "str_date (example_date\<lparr>hour := 0, minute := 0\<rparr>) = ''2021-01-02''"
  "str_date (example_date\<lparr>day := 3, hour := 0, minute := 0\<rparr>) = ''2021-01-03''"
  by (simp_all add: eval_str example_date_def)

lemma plain_item_form_news:
  "NewsObject_form_news offline_env (no_link_object (Some ''Feed'') (plain_item t))
     = Inr (plain_container t)"
  by (simp add: NewsObject_form_news_def form_header_def date_of_def
      dateutil_parser_parse_def form_description_field_def description_text_def
      form_links_def no_link_object_def plain_item_def offline_env_def example_parse_def
      example_dates plain_container_def newline_def)

section \<open>Selection: date filter and limit\<close>

lemma publication_dates_Inr:
  "publication_dates e items = Inr ds \<Longrightarrow>
     length ds = length items \<and> (\<forall>i<length items. publication_date e (items ! i) = Inr (ds ! i))"
proof (induction items arbitrary: ds)
  case Nil
  then show ?case by simp
next
  case (Cons news rest)
  from Cons.prems obtain d ds1 where d: "publication_date e news = Inr d"
    and r: "publication_dates e rest = Inr ds1" and ds: "ds = d # ds1"
    by (auto split: sum.splits)
  from Cons.IH[OF r] have len: "length ds1 = length rest"
    and nth: "\<forall>i<length rest. publication_date e (rest ! i) = Inr (ds1 ! i)" by auto
  have "publication_date e ((news # rest) ! i) = Inr (ds ! i)" if "i < length (news # rest)" for i
    using that d nth ds by (cases i) auto
  with len ds show ?case by simp
qed

lemma with_suitable_date_filter:
  "publication_dates e items = Inr ds \<Longrightarrow>
     with_suitable_date d ds items = filter (\<lambda>news. publication_date e news = Inr d) items"
proof (induction items arbitrary: ds)
  case Nil
  then show ?case by (cases ds) simp_all
next
  case (Cons news rest)
  from Cons.prems obtain d1 ds1 where d: "publication_date e news = Inr d1"
    and r: "publication_dates e rest = Inr ds1" and ds: "ds = d1 # ds1"
    by (auto split: sum.splits)
  from Cons.IH[OF r] d ds show ?case by auto
qed

lemma slice_to_limit:
  assumes "\<forall>l. news_limit former = Some l \<longrightarrow> 0 \<le> l"
  shows "slice_to xs (form_news_limit former xs)
    = take (case news_limit former of None \<Rightarrow> length xs | Some l \<Rightarrow> min (nat l) (length xs)) xs"
proof (cases "news_limit former")
  case None
  then show ?thesis by (simp add: slice_to_def form_news_limit_def Let_def)
next
  case (Some l)
  with assms have "0 \<le> l" by simp
  with Some show ?thesis by (auto simp: slice_to_def form_news_limit_def min_def Let_def)
qed

lemma form_news_list_selection:
  assumes l: "form_news_list e former = Inr news_list"
    and lim: "\<forall>l. news_limit former = Some l \<longrightarrow> 0 \<le> l"
  shows "news_list = take (selection_size e former) (date_filtered e former)"
proof (cases "news_date former")
  case None
  then have df: "date_filtered e former = rss_items former" by (simp add: date_filtered_def)
  from None l have "news_list = slice_to (rss_items former)
      (form_news_limit former (rss_items former))"
    by (simp add: form_news_list_def Let_def)
  with slice_to_limit[OF lim, of "rss_items former"] df show ?thesis
    by (simp add: selection_size_def cong: option.case_cong)
next
  case (Some nd)
  from l Some obtain target ds where t: "dateutil_parse e nd = Inr target"
    and ds: "publication_dates e (rss_items former) = Inr ds"
    and nl: "news_list = (let suitable = with_suitable_date (str_date target) ds (rss_items former)
                          in slice_to suitable (form_news_limit former suitable))"
    by (auto simp: form_news_list_def form_news_list_by_date_def Let_def
        split: sum.splits if_splits)
  have f: "with_suitable_date (str_date target) ds (rss_items former) = date_filtered e former"
    using with_suitable_date_filter[OF ds, of "str_date target"] Some t
    by (simp add: date_filtered_def date_matches_def[abs_def])
  from nl f slice_to_limit[OF lim, of "date_filtered e former"] show ?thesis
    by (simp add: selection_size_def Let_def cong: option.case_cong)
qed

text \<open>
  Claim C3. A run of \<open>form_news\<close> that does not raise returns as many records as
  items were selected, whatever the schedule of the worker threads: the selection is
  the list of the items of the wanted date (all items when no date is given) cut to
  its first \<open>limit\<close> items, so its size is the smaller of the limit and the count
  after the date filter, and that count when there is no limit. The limit is not
  negative.
\<close>

theorem form_news_count:
  assumes "form_news e sched st former = Inr out"
    and "\<forall>l. news_limit former = Some l \<longrightarrow> 0 \<le> l"
  shows "form_news_list e former = Inr (take (selection_size e former) (date_filtered e former))
    \<and> length out = selection_size e former
    \<and> selection_size e former
        = (case news_limit former of
             None \<Rightarrow> length (date_filtered e former)
           | Some l \<Rightarrow> min (nat l) (length (date_filtered e former)))"
proof -
  from assms(1) obtain news_list where l: "form_news_list e former = Inr news_list"
    by (auto simp: form_news_def split: sum.splits)
  from form_news_list_selection[OF l assms(2)]
  have n: "news_list = take (selection_size e former) (date_filtered e former)" .
  have "selection_size e former \<le> length (date_filtered e former)"
    by (simp add: selection_size_def Let_def split: option.splits)
  with n have "length news_list = selection_size e former" by simp
  with form_news_results[OF l assms(1)] l n show ?thesis
    by (simp add: selection_size_def Let_def)
qed

lemma plain_former_list:
  "form_news_list offline_env plain_former = Inr [plain_item ''First'', plain_item ''Second'']"
  by (simp add: form_news_list_def form_news_list_by_date_def plain_former_def
      offline_env_def example_parse_def publication_date_def dateutil_parser_parse_def
      plain_item_def example_dates slice_to_def form_news_limit_def)

lemma plain_former_run:
  "form_news offline_env [1, 0] fresh_state plain_former
     = Inr [plain_container ''First'', plain_container ''Second'']"
proof -
  have "fst (executor_pool offline_env [1, 0] (Some ''Feed'')
          [plain_item ''First'', plain_item ''Second''] fresh_state)
        = [Inr (no_link_object (Some ''Feed'') (plain_item ''First'')),
           Inr (no_link_object (Some ''Feed'') (plain_item ''Second''))]"
    by (simp add: executor_pool_def pool_step_def plain_item_def)
  then show ?thesis
    using plain_former_list
    by (simp add: form_news_def plain_item_form_news plain_former_def)
qed

text \<open>
  A limit of five on a feed of two items of the wanted date: two records, no error.
\<close>

theorem form_news_count_witness:
  "form_news offline_env [1, 0] fresh_state plain_former
     = Inr [plain_container ''First'', plain_container ''Second'']
   \<and> news_limit plain_former = Some 5
   \<and> selection_size offline_env plain_former = 2
   \<and> length [plain_container ''First'', plain_container ''Second''] = 2"
proof -
  have lim: "\<forall>l. news_limit plain_former = Some l \<longrightarrow> 0 \<le> l"
    by (simp add: plain_former_def)
  from form_news_count[OF plain_former_run lim]
  have "length [plain_container ''First'', plain_container ''Second'']
      = selection_size offline_env plain_former" by simp
  then have "selection_size offline_env plain_former = 2" by simp
  with plain_former_run show ?thesis by (simp add: plain_former_def)
qed

lemma publication_dates_all:
  "\<forall>news\<in>set items. \<exists>d. publication_date e news = Inr d \<and> P d \<Longrightarrow>
     \<exists>ds. publication_dates e items = Inr ds \<and> (\<forall>d\<in>set ds. P d)"
proof (induction items)
  case Nil
  then show ?case by simp
next
  case (Cons news rest)
  then obtain d ds where "publication_date e news = Inr d" "P d"
    "publication_dates e rest = Inr ds" "\<forall>d\<in>set ds. P d" by auto
  then show ?case by auto
qed

text \<open>
  Claim C8. When a date is asked for and every item has a publication date that,
  written date-only (\<open>str_date\<close> keeps year, month and day of the parsed date, no
  time, no zone), differs from the wanted date, \<open>form_news\<close> raises
  \<open>ValueError("error: no news for the specified date")\<close> under every schedule: it
  returns no records.
\<close>

theorem form_news_no_news_for_date:
  assumes "news_date former = Some nd"
    and "dateutil_parse e nd = Inr target"
    and "\<forall>news\<in>set (rss_items former).
           \<exists>d. publication_date e news = Inr d \<and> d \<noteq> str_date target"
  shows "form_news_list e former = Inl (ValueError no_news_message)
    \<and> form_news e sched st former = Inl (ValueError no_news_message)
    \<and> sublist ''no news for the specified date'' no_news_message"
proof -
  from publication_dates_all[of "rss_items former" e "\<lambda>d. d \<noteq> str_date target", OF assms(3)]
  obtain ds where ds: "publication_dates e (rss_items former) = Inr ds"
    and no: "\<forall>d\<in>set ds. d \<noteq> str_date target" by blast
  then have "str_date target \<notin> set ds" by blast
  with ds assms(1,2) have l: "form_news_list e former = Inl (ValueError no_news_message)"
    by (simp add: form_news_list_def form_news_list_by_date_def)
  have "sublist ''no news for the specified date'' no_news_message"
    by (simp add: no_news_message_def sublist_Cons_right)
  with l show ?thesis by (simp add: form_news_def)
qed

text \<open>Five items of 2 January 2021 and the wanted date 3 January 2021.\<close>

theorem form_news_no_news_for_date_witness:
  "news_date other_day_former = Some ''20210103''
   \<and> dateutil_parse offline_env ''20210103''
       = Inr (example_date\<lparr>day := 3, hour := 0, minute := 0\<rparr>)
   \<and> length (rss_items other_day_former) = 5
   \<and> list_all (\<lambda>news. publication_date offline_env news = Inr ''2021-01-02'')
       (rss_items other_day_former)
   \<and> str_date (example_date\<lparr>day := 3, hour := 0, minute := 0\<rparr>) = ''2021-01-03''
   \<and> form_news offline_env [2, 0] fresh_state other_day_former
       = Inl (ValueError ''error: no news for the specified date'')"
proof -
  have d: "news_date other_day_former = Some ''20210103''"
    by (simp add: other_day_former_def)
  have t: "dateutil_parse offline_env ''20210103''
      = Inr (example_date\<lparr>day := 3, hour := 0, minute := 0\<rparr>)"
    by (simp add: offline_env_def example_parse_def)
  have p: "publication_date offline_env (plain_item x) = Inr ''2021-01-02''" for x
    by (simp add: publication_date_def plain_item_def dateutil_parser_parse_def
        offline_env_def example_parse_def example_dates)
  have a: "list_all (\<lambda>news. publication_date offline_env news = Inr ''2021-01-02'')
       (rss_items other_day_former)"
    by (simp add: other_day_former_def p)
  have h: "\<forall>news\<in>set (rss_items other_day_former).
      \<exists>d. publication_date offline_env news = Inr d
        \<and> d \<noteq> str_date (example_date\<lparr>day := 3, hour := 0, minute := 0\<rparr>)"
    using a by (simp add: list_all_iff example_dates)
  from form_news_no_news_for_date[OF d t h, of "[2, 0]" fresh_state] d t a
  show ?thesis by (simp add: no_news_message_def example_dates other_day_former_def)
qed

section \<open>Order of the records\<close>

lemma NewsObject_form_news_link:
  assumes "NewsObject_form_news e obj = Inr c"
    and "(img_data_container obj = None) = (item_link (certain_rss_news obj) = NoTag)"
  shows "link c =
     (case item_link (certain_rss_news obj) of
        NoTag \<Rightarrow> no_link_text
      | Tag u \<Rightarrow> (case u of None \<Rightarrow> [] | Some s \<Rightarrow> s)) @ [newline]"
  using assms
  by (auto simp: NewsObject_form_news_def form_header_def
      split: sum.splits option.splits xml_field.splits prod.splits if_splits)

lemma NewsObject_form_news_title:
  assumes "NewsObject_form_news e obj = Inr c"
  shows "item_title (certain_rss_news obj) = Tag (title c) \<and> date_of e obj = Inr (date c)"
  using assms
  by (auto simp: NewsObject_form_news_def form_header_def
      split: sum.splits option.splits xml_field.splits prod.splits if_splits)

text \<open>
  Claim C1. Whatever the schedule of the worker threads, a run of \<open>form_news\<close>
  that does not raise returns one record for each selected item, in the order of the
  selection: the record at position \<open>i\<close> is what \<open>form_news\<close> of the
  \<open>NewsObject\<close> made from the item at position \<open>i\<close> returns (the object the
  future at position \<open>i\<close> holds), and it carries that item's title and link.
\<close>

theorem form_news_order:
  assumes "form_news_list e former = Inr news_list"
    and "form_news e sched st former = Inr out"
  shows "length out = length news_list
    \<and> (\<forall>i<length news_list. \<exists>obj.
          fst (executor_pool e sched (rss_title former) news_list st) ! i = Inr obj
          \<and> obj_title obj = rss_title former
          \<and> certain_rss_news obj = news_list ! i
          \<and> NewsObject_form_news e obj = Inr (out ! i)
          \<and> item_title (news_list ! i) = Tag (title (out ! i))
          \<and> link (out ! i) =
              (case item_link (news_list ! i) of
                 NoTag \<Rightarrow> no_link_text
               | Tag u \<Rightarrow> (case u of None \<Rightarrow> [] | Some s \<Rightarrow> s)) @ [newline])"
proof -
  let ?rs = "fst (executor_pool e sched (rss_title former) news_list st)"
  note r = form_news_results[OF assms]
  have "\<exists>obj. ?rs ! i = Inr obj
          \<and> obj_title obj = rss_title former
          \<and> certain_rss_news obj = news_list ! i
          \<and> NewsObject_form_news e obj = Inr (out ! i)
          \<and> item_title (news_list ! i) = Tag (title (out ! i))
          \<and> link (out ! i) =
              (case item_link (news_list ! i) of
                 NoTag \<Rightarrow> no_link_text
               | Tag u \<Rightarrow> (case u of None \<Rightarrow> [] | Some s \<Rightarrow> s)) @ [newline]"
    if i: "i < length news_list" for i
  proof -
    from r i obtain obj where o: "?rs ! i = Inr obj"
      and res: "result_of (rss_title former) (news_list ! i) (Inr obj)"
      and f: "NewsObject_form_news e obj = Inr (out ! i)" by blast
    from res have t: "obj_title obj = rss_title former"
      and c: "certain_rss_news obj = news_list ! i"
      and n: "(img_data_container obj = None) = (item_link (certain_rss_news obj) = NoTag)"
      by (simp_all add: result_of_def)
    from NewsObject_form_news_link[OF f n] NewsObject_form_news_title[OF f] o t c f
    show ?thesis by simp
  qed
  with r show ?thesis by blast
qed

section \<open>The seen-set of the duplicate checker\<close>

lemmas eval_check = html_data_checker_def html_image_checker_def html_caption_checker_def
  classes_to_check_def endswith_def prohibited_extensions_def statistics_collection_sites_def
  icons_pattern_def opt_def is_digit_def sublist_Cons_right suffix_to_prefix

lemmas eval_scan = scan_tag_def get_img_data_def get_nested_url_def requests_get_opt_def
  online_env_def online_get_def

lemmas eval_pool = executor_pool_def pool_step_def WebParser_init_def NewsObject_init_def
  form_img_data_def collect_img_tag_images_def collect_a_href_tag_images_def
  item_with_link_def plain_item_def page_one_def empty_soup_def
  bbc_plain_tag_def bbc_srcset_tag_def photo_tag_def fresh_state_def linked_object_def

text \<open>
  Claim C2. The seen-set of the duplicate checker is to be one page scan's own, empty
  at its start and out of reach of the other scans, so that two scans of the same
  page accept the same images also when they run at the same time. The code keeps it
  in the class attributes of \<open>ImageDuplicateChecker\<close>, which all worker threads
  of \<open>form_news\<close> share, and the claim fails at this input: two items of one
  batch link to the same page, whose first two images have the same source, the
  first without \<open>srcset\<close>. With the threads interleaved as
  \<open>[0, 1, 0, 1, 1, 0]\<close> (each task fetches the page and checks the first tag, the
  second task checks the second tag, then the first task does) the first scan accepts
  the image of the second tag and the second scan does not: the check of the second
  task has emptied the seen-set the first task had filled.
\<close>

theorem concurrent_scans_of_one_page_differ:
  "map (map_sum id img_data_container)
     (fst (executor_pool online_env [0, 1, 0, 1, 1, 0] (Some ''Feed'') same_page_items
        fresh_state))
   = [Inr (Some [(''http://img.bbc.site/a.jpg'', Some ''Sea''), (''http://img.site/p.jpg'', None),
                 (''http://img.site/p.jpg'', Some [])]),
      Inr (Some [(''http://img.site/p.jpg'', None), (''http://img.site/p.jpg'', Some [])])]"
  by (simp add: same_page_items_def eval_pool eval_scan eval_check)

text \<open>Left alone one after the other, both scans reject it.\<close>

lemma sequential_scans:
  "map (map_sum id img_data_container)
     (fst (executor_pool online_env [] (Some ''Feed'') same_page_items fresh_state))
   = [Inr (Some [(''http://img.site/p.jpg'', None), (''http://img.site/p.jpg'', Some [])]),
      Inr (Some [(''http://img.site/p.jpg'', None), (''http://img.site/p.jpg'', Some [])])]"
  by (simp add: same_page_items_def eval_pool eval_scan eval_check)

lemma check_seen:
  assumes "seen_set flag st = seen_set flag1 st1"
  shows "fst (check c tag flag st) = fst (check c tag flag1 st1)
    \<and> seen_set flag (snd (check c tag flag st)) = seen_set flag1 (snd (check c tag flag1 st1))"
proof (cases "c = ImageDuplicateChecker")
  case True
  have d: "fst (check ImageDuplicateChecker tag f s) = Inr (src tag \<in> seen_set f s)
      \<and> seen_set f (snd (check ImageDuplicateChecker tag f s)) = insert (src tag) (seen_set f s)"
    for f s
    by (auto simp: seen_set_def Let_def)
  from d[of flag st] d[of flag1 st1] assms True show ?thesis by simp
next
  case False
  from check_not_dup_state[OF False, of tag flag st] check_not_dup_state[OF False, of tag flag1 st1]
    check_not_dup_value[OF False, of tag flag st flag1 st1] assms
  show ?thesis by simp
qed

lemma run_checks_seen:
  "seen_set flag st = seen_set flag1 st1 \<Longrightarrow>
     fst (run_checks cs tag flag st) = fst (run_checks cs tag flag1 st1)
     \<and> seen_set flag (snd (run_checks cs tag flag st))
         = seen_set flag1 (snd (run_checks cs tag flag1 st1))"
proof (induction cs arbitrary: st st1)
  case Nil
  then show ?case by simp
next
  case (Cons c cs)
  obtain r s where a: "check c tag flag st = (r, s)" by (cases "check c tag flag st")
  obtain r1 s1 where b: "check c tag flag1 st1 = (r1, s1)" by (cases "check c tag flag1 st1")
  from check_seen[OF Cons.prems, of c tag] a b
  have r: "r1 = r" and s: "seen_set flag s = seen_set flag1 s1" by simp_all
  show ?case
  proof (cases r)
    case (Inl exc)
    with a b r s show ?thesis by simp
  next
    case (Inr v)
    with a b r s Cons.IH[OF s] show ?thesis by (cases v) simp_all
  qed
qed

lemma html_data_checker_seen:
  assumes "seen_set flag st = seen_set flag1 st1"
  shows "fst (html_data_checker tag flag st) = fst (html_data_checker tag flag1 st1)
    \<and> seen_set flag (snd (html_data_checker tag flag st))
        = seen_set flag1 (snd (html_data_checker tag flag1 st1))"
proof -
  obtain r s where a: "html_image_checker tag flag st = (r, s)"
    by (cases "html_image_checker tag flag st")
  obtain r1 s1 where b: "html_image_checker tag flag1 st1 = (r1, s1)"
    by (cases "html_image_checker tag flag1 st1")
  from run_checks_seen[OF assms, of classes_to_check tag] a b
  have r: "r1 = r" and s: "seen_set flag s = seen_set flag1 s1"
    by (simp_all add: html_image_checker_def)
  obtain q t where c: "html_caption_checker tag flag s = (q, t)"
    by (cases "html_caption_checker tag flag s")
  obtain q1 t1 where d: "html_caption_checker tag flag1 s1 = (q1, t1)"
    by (cases "html_caption_checker tag flag1 s1")
  from run_checks_seen[OF s, of "[CaptionHrefChecker]" tag] c d
  have q: "q1 = q" and t: "seen_set flag t = seen_set flag1 t1"
    by (simp_all add: html_caption_checker_def)
  from a b c d r s q t show ?thesis
    by (simp add: html_data_checker_def split: sum.splits bool.splits)
qed

lemma get_img_data_seen:
  assumes "seen_set flag st = seen_set flag1 st1"
  shows "fst (get_img_data e tag flag page_url st) = fst (get_img_data e tag flag1 page_url st1)
    \<and> seen_set flag (snd (get_img_data e tag flag page_url st))
        = seen_set flag1 (snd (get_img_data e tag flag1 page_url st1))"
proof -
  obtain r s where a: "html_data_checker tag flag st = (r, s)"
    by (cases "html_data_checker tag flag st")
  obtain r1 s1 where b: "html_data_checker tag flag1 st1 = (r1, s1)"
    by (cases "html_data_checker tag flag1 st1")
  from html_data_checker_seen[OF assms, of tag] a b
  have r: "r1 = r" and s: "seen_set flag s = seen_set flag1 s1" by simp_all
  with a b show ?thesis
    by (simp add: get_img_data_def Let_def
        split: sum.splits bool.splits py_exception.splits)
qed

lemma scan_tag_seen:
  assumes "seen_set (ident p) st = seen_set (ident p1) st1" and "url p1 = url p"
  shows "fst (scan_tag e p tag images st) = fst (scan_tag e p1 tag images st1)
    \<and> seen_set (ident p) (snd (scan_tag e p tag images st))
        = seen_set (ident p1) (snd (scan_tag e p1 tag images st1))"
proof -
  obtain r s where a: "get_img_data e tag (ident p) (url p) st = (r, s)"
    by (cases "get_img_data e tag (ident p) (url p) st")
  obtain r1 s1 where b: "get_img_data e tag (ident p1) (url p) st1 = (r1, s1)"
    by (cases "get_img_data e tag (ident p1) (url p) st1")
  from get_img_data_seen[OF assms(1), of e tag "url p"] a b
  have r: "r1 = r" and s: "seen_set (ident p) s = seen_set (ident p1) s1" by simp_all
  with a b assms(2) show ?thesis
    by (simp add: scan_tag_def split: sum.splits prod.splits option.splits)
qed

lemma scan_tags_seen:
  assumes "url p1 = url p"
  shows "seen_set (ident p) st = seen_set (ident p1) st1 \<Longrightarrow>
    fst (scan_tags e p tags images st) = fst (scan_tags e p1 tags images st1)"
proof (induction tags arbitrary: images st st1)
  case Nil
  then show ?case by simp
next
  case (Cons tag tags)
  obtain r s where a: "scan_tag e p tag images st = (r, s)"
    by (cases "scan_tag e p tag images st")
  obtain r1 s1 where b: "scan_tag e p1 tag images st1 = (r1, s1)"
    by (cases "scan_tag e p1 tag images st1")
  from scan_tag_seen[OF Cons.prems assms, of e tag images] a b
  have r: "r1 = r" and s: "seen_set (ident p) s = seen_set (ident p1) s1" by simp_all
  show ?case
  proof (cases r)
    case (Inl exc)
    with a b r show ?thesis by simp
  next
    case (Inr images1)
    with a b r Cons.IH[OF s, of images1] show ?thesis by simp
  qed
qed

lemma form_img_data_seen:
  assumes "url p1 = url p" and "page p1 = page p"
    and "seen_set (ident p) st = seen_set (ident p1) st1"
  shows "fst (form_img_data e p st) = fst (form_img_data e p1 st1)"
proof -
  from scan_tags_seen[OF assms(1,3), of e "img_tags (page p)" "[]"] assms(2)
  have "fst (collect_img_tag_images e p st) = fst (collect_img_tag_images e p1 st1)"
    by (simp add: collect_img_tag_images_def)
  with assms(2) show ?thesis
    by (cases "collect_img_tag_images e p st"; cases "collect_img_tag_images e p1 st1")
      (auto simp: form_img_data_def collect_a_href_tag_images_def split: sum.splits)
qed

text \<open>
  Scans that do not interleave. The seen-set is the class attribute
  \<open>ImageDuplicateChecker.duplicates\<close>, emptied by the first duplicate check that
  comes from another parser than the recorded one. A page scan
  by a new parser that runs without checks of another scan in between
  (\<open>form_img_data\<close>) returns what it returns from an empty seen-set of its own,
  whatever earlier scans left in the class; so two such scans of the same page, by
  two parsers, return the same images.
\<close>

theorem form_img_data_session:
  assumes "cls_instance st \<noteq> Some (ident p)"
  shows "fst (form_img_data e p st)
      = fst (form_img_data e p \<lparr>cls_instance = Some (ident p), cls_duplicates = {}\<rparr>)
    \<and> (\<forall>p1 st1. url p1 = url p \<and> page p1 = page p \<and> cls_instance st1 \<noteq> Some (ident p1)
          \<longrightarrow> fst (form_img_data e p1 st1) = fst (form_img_data e p st))"
proof -
  have e: "seen_set (ident p) st = {}" using assms by (simp add: seen_set_def)
  have "seen_set (ident p) st
      = seen_set (ident p) \<lparr>cls_instance = Some (ident p), cls_duplicates = {}\<rparr>"
    using e by (simp add: seen_set_def)
  from form_img_data_seen[OF refl refl this]
  have a: "fst (form_img_data e p st)
      = fst (form_img_data e p \<lparr>cls_instance = Some (ident p), cls_duplicates = {}\<rparr>)" .
  have "fst (form_img_data e p1 st1) = fst (form_img_data e p st)"
    if "url p1 = url p" "page p1 = page p" "cls_instance st1 \<noteq> Some (ident p1)" for p1 st1
  proof -
    have "seen_set (ident p) st = seen_set (ident p1) st1"
      using e that(3) by (simp add: seen_set_def)
    from form_img_data_seen[OF that(1,2) this] show ?thesis by simp
  qed
  with a show ?thesis by blast
qed

text \<open>
  The page of the example scanned by parser 5 after parser 3 has left the photo in the
  seen-set, and by parser 6 from the initial class state.
\<close>

theorem form_img_data_session_witness:
  "cls_instance used_state \<noteq> Some (ident (parser_one 5))
   \<and> cls_instance fresh_state \<noteq> Some (ident (parser_one 6))
   \<and> url (parser_one 6) = url (parser_one 5) \<and> page (parser_one 6) = page (parser_one 5)
   \<and> fst (form_img_data online_env (parser_one 5) used_state)
       = Inr [(''http://img.site/p.jpg'', None), (''http://img.site/p.jpg'', Some [])]
   \<and> fst (form_img_data online_env (parser_one 6) fresh_state)
       = Inr [(''http://img.site/p.jpg'', None), (''http://img.site/p.jpg'', Some [])]"
proof -
  have a: "cls_instance used_state \<noteq> Some (ident (parser_one 5))"
    by (simp add: used_state_def parser_one_def)
  have b: "cls_instance fresh_state \<noteq> Some (ident (parser_one 6))"
    by (simp add: fresh_state_def parser_one_def)
  have c: "url (parser_one 6) = url (parser_one 5)" "page (parser_one 6) = page (parser_one 5)"
    by (simp_all add: parser_one_def)
  have v: "fst (form_img_data online_env (parser_one 5)
        \<lparr>cls_instance = Some (ident (parser_one 5)), cls_duplicates = {}\<rparr>)
      = Inr [(''http://img.site/p.jpg'', None), (''http://img.site/p.jpg'', Some [])]"
    by (simp add: parser_one_def eval_pool eval_scan eval_check)
  note t = form_img_data_session[OF a, of online_env]
  from t v have r5: "fst (form_img_data online_env (parser_one 5) used_state)
      = Inr [(''http://img.site/p.jpg'', None), (''http://img.site/p.jpg'', Some [])]"
    by simp
  from t[THEN conjunct2, rule_format, of "parser_one 6" fresh_state] b c r5
  have "fst (form_img_data online_env (parser_one 6) fresh_state)
      = Inr [(''http://img.site/p.jpg'', None), (''http://img.site/p.jpg'', Some [])]"
    by simp
  with a b c r5 show ?thesis by simp
qed

section \<open>A page that cannot be fetched\<close>

lemma collect_results_Inl:
  "k < length rs \<Longrightarrow> rs ! k = Inl exc \<Longrightarrow>
     \<exists>exc1. collect_results e rs acc = Inl exc1 \<and> (k = 0 \<longrightarrow> exc1 = exc)"
proof (induction rs arbitrary: k acc)
  case Nil
  then show ?case by simp
next
  case (Cons r rs)
  show ?case
  proof (cases k)
    case 0
    with Cons.prems show ?thesis by simp
  next
    case (Suc j)
    with Cons.prems have "j < length rs" "rs ! j = Inl exc" by simp_all
    from Cons.IH[OF this] Suc show ?thesis by (auto split: sum.splits)
  qed
qed

lemma NewsObject_init_fetch_failure:
  "item_link item = Tag (Some u) \<Longrightarrow> requests_get e u = Inl exc \<Longrightarrow>
     NewsObject_init e flag t item st = (Inl exc, st)"
  by (simp add: NewsObject_init_def WebParser_init_def)

text \<open>
  Claim C4, as the code has it. Nothing catches what \<open>requests.get\<close> raises in
  \<open>WebParser.__init__\<close>: for an item with a link whose page fetch raises,
  \<open>NewsObject.__init__\<close> raises that exception, the future of the item holds it, and
  \<open>form_news\<close> raises under every schedule (this exception when the item is the
  first of the selection, else this one or that of an earlier item): no record is
  returned for any item of the batch.
\<close>

theorem form_news_page_fetch_failure:
  assumes "form_news_list e former = Inr news_list"
    and "k < length news_list"
    and "item_link (news_list ! k) = Tag (Some u)"
    and "requests_get e u = Inl exc"
  shows "NewsObject_init e flag (rss_title former) (news_list ! k) st1 = (Inl exc, st1)
    \<and> fst (executor_pool e sched (rss_title former) news_list st) ! k = Inl exc
    \<and> (\<exists>exc1. form_news e sched st former = Inl exc1 \<and> (k = 0 \<longrightarrow> exc1 = exc))"
proof -
  let ?t = "rss_title former"
  let ?Q = "\<lambda>i tk. i = k \<longrightarrow> tk = Submitted ?t (news_list ! k) \<or> tk = Finished (Inl exc)"
  let ?R = "\<lambda>i (r :: py_exception + news_object). i = k \<longrightarrow> r = Inl exc"
  have step: "?Q i (fst (task_step e flag tk st))" if "?Q i tk" for i flag tk st
    using that assms(3,4) by (auto simp: WebParser_init_def)
  have fin: "?R i (fst (task_finish e flag tk st))" if "?Q i tk" for i flag tk st
    using that NewsObject_init_fetch_failure[OF assms(3,4)] by auto
  have init: "\<forall>i<length news_list. ?Q i (Submitted ?t (news_list ! i))" by simp
  from executor_pool_inv[of ?Q e ?R news_list ?t sched st, OF step fin init] assms(2)
  have len: "length (fst (executor_pool e sched ?t news_list st)) = length news_list"
    and r: "fst (executor_pool e sched ?t news_list st) ! k = Inl exc" by auto
  from collect_results_Inl[of k _ exc e "[]", OF _ r] len assms(2)
  obtain exc1 where "collect_results e (fst (executor_pool e sched ?t news_list st)) [] = Inl exc1"
    and "k = 0 \<longrightarrow> exc1 = exc" by auto
  with assms(1) have "\<exists>exc1. form_news e sched st former = Inl exc1 \<and> (k = 0 \<longrightarrow> exc1 = exc)"
    by (auto simp: form_news_def)
  with r NewsObject_init_fetch_failure[OF assms(3,4)] show ?thesis by simp
qed

lemma mixed_former_list:
  "form_news_list offline_env mixed_former = Inr [plain_item ''First'', linked_item ''Second'']"
  by (simp add: form_news_list_def mixed_former_def slice_to_def form_news_limit_def)

text \<open>
  A feed of an item without link and an item whose page cannot be fetched: the whole
  run raises \<open>ConnectionError\<close>, also the first item gets no record.
\<close>

theorem page_fetch_failure_ends_batch:
  "form_news offline_env [] fresh_state mixed_former = Inl ConnectionError"
proof -
  have "fst (executor_pool offline_env [] (Some ''Feed'')
          [plain_item ''First'', linked_item ''Second''] fresh_state)
        = [Inr (no_link_object (Some ''Feed'') (plain_item ''First'')), Inl ConnectionError]"
    by (simp add: executor_pool_def NewsObject_init_def WebParser_init_def plain_item_def
        linked_item_def offline_env_def)
  then show ?thesis
    using mixed_former_list
    by (simp add: form_news_def plain_item_form_news mixed_former_def)
qed

theorem form_news_page_fetch_failure_witness:
  "form_news_list offline_env mixed_former = Inr [plain_item ''First'', linked_item ''Second'']
   \<and> item_link ([plain_item ''First'', linked_item ''Second''] ! 1)
       = Tag (Some ''http://news.site/a1'')
   \<and> requests_get offline_env ''http://news.site/a1'' = Inl ConnectionError
   \<and> fst (executor_pool offline_env [1, 0, 1] (rss_title mixed_former)
         [plain_item ''First'', linked_item ''Second''] fresh_state) ! 1 = Inl ConnectionError
   \<and> isl (form_news offline_env [1, 0, 1] fresh_state mixed_former)"
proof -
  have k: "(1::nat) < length [plain_item ''First'', linked_item ''Second'']" by simp
  have l: "item_link ([plain_item ''First'', linked_item ''Second''] ! 1)
      = Tag (Some ''http://news.site/a1'')"
    by (simp add: linked_item_def)
  have g: "requests_get offline_env ''http://news.site/a1'' = Inl ConnectionError"
    by (simp add: offline_env_def)
  from form_news_page_fetch_failure[OF mixed_former_list k l g, of 0 fresh_state "[1, 0, 1]"
      fresh_state]
  have "fst (executor_pool offline_env [1, 0, 1] (rss_title mixed_former)
         [plain_item ''First'', linked_item ''Second''] fresh_state) ! 1 = Inl ConnectionError"
    and "isl (form_news offline_env [1, 0, 1] fresh_state mixed_former)"
    by auto
  with mixed_former_list l g show ?thesis by simp
qed

section \<open>Images from hyperlinks\<close>

lemma a_href_images_mem:
  "Some h \<in> set hs \<Longrightarrow> h \<noteq> [] \<Longrightarrow> endswith h [''.jpg'', ''.png''] \<Longrightarrow>
     (h, Some []) \<in> set (a_href_images hs)"
  by (induction hs rule: a_href_images.induct) auto

text \<open>
  Claim C10. \<open>_collect_a_href_tag_images\<close> reads the page only, not the checkers
  and not the class state: every \<open>href\<close> that ends in \<open>.jpg\<close> or \<open>.png\<close> gives
  an entry with the empty caption. \<open>form_img_data\<close> appends these entries after the
  images of the \<open>img\<close> tags. On the page of the example, whose photo is the source
  of an accepted \<open>img\<close> tag and also the target of a hyperlink, the list holds the
  photo's URL twice.
\<close>

theorem form_img_data_appends_a_href_images:
  "(\<forall>images. fst (form_img_data e p st) = Inr images \<longrightarrow>
      (\<exists>scanned. fst (collect_img_tag_images e p st) = Inr scanned
         \<and> images = scanned @ collect_a_href_tag_images p))
   \<and> (\<forall>h. Some h \<in> set (a_hrefs (page p)) \<and> (suffix ''.jpg'' h \<or> suffix ''.png'' h)
        \<longrightarrow> (h, Some []) \<in> set (collect_a_href_tag_images p))
   \<and> fst (collect_img_tag_images online_env (parser_one 0) fresh_state)
       = Inr [(''http://img.site/p.jpg'', None)]
   \<and> collect_a_href_tag_images (parser_one 0) = [(''http://img.site/p.jpg'', Some [])]
   \<and> fst (form_img_data online_env (parser_one 0) fresh_state)
       = Inr [(''http://img.site/p.jpg'', None), (''http://img.site/p.jpg'', Some [])]"
proof -
  have a: "\<exists>scanned. fst (collect_img_tag_images e p st) = Inr scanned
         \<and> images = scanned @ collect_a_href_tag_images p"
    if "fst (form_img_data e p st) = Inr images" for images
    using that by (auto simp: form_img_data_def split: prod.splits sum.splits)
  have b: "(h, Some []) \<in> set (collect_a_href_tag_images p)"
    if "Some h \<in> set (a_hrefs (page p)) \<and> (suffix ''.jpg'' h \<or> suffix ''.png'' h)" for h
  proof -
    from that have "h \<noteq> []" by auto
    moreover from that have "endswith h [''.jpg'', ''.png'']" by (auto simp: endswith_def)
    ultimately show ?thesis
      using that a_href_images_mem[of h "a_hrefs (page p)"]
      by (simp add: collect_a_href_tag_images_def)
  qed
  have c: "fst (collect_img_tag_images online_env (parser_one 0) fresh_state)
       = Inr [(''http://img.site/p.jpg'', None)]"
    by (simp add: parser_one_def eval_pool eval_scan eval_check)
  have d: "collect_a_href_tag_images (parser_one 0) = [(''http://img.site/p.jpg'', Some [])]"
    by (simp add: parser_one_def eval_pool eval_check)
  have "fst (form_img_data online_env (parser_one 0) fresh_state)
       = Inr [(''http://img.site/p.jpg'', None), (''http://img.site/p.jpg'', Some [])]"
    using c d
    by (cases "collect_img_tag_images online_env (parser_one 0) fresh_state")
      (simp add: form_img_data_def)
  with a b c d show ?thesis by blast
qed

theorem form_img_data_appends_witness:
  "fst (form_img_data online_env (parser_one 0) fresh_state)
       = Inr [(''http://img.site/p.jpg'', None), (''http://img.site/p.jpg'', Some [])]
   \<and> Some ''http://img.site/p.jpg'' \<in> set (a_hrefs (page (parser_one 0)))
   \<and> suffix ''.jpg'' ''http://img.site/p.jpg''
   \<and> (''http://img.site/p.jpg'', Some []) \<in> set (collect_a_href_tag_images (parser_one 0))
   \<and> (\<exists>scanned. fst (collect_img_tag_images online_env (parser_one 0) fresh_state) = Inr scanned
         \<and> [(''http://img.site/p.jpg'', None), (''http://img.site/p.jpg'', Some [])]
             = scanned @ collect_a_href_tag_images (parser_one 0))
   \<and> count_list (map fst [(''http://img.site/p.jpg'', None :: string option),
         (''http://img.site/p.jpg'', Some [])]) ''http://img.site/p.jpg'' = 2"
proof -
  note t = form_img_data_appends_a_href_images[of online_env "parser_one 0" fresh_state]
  have f: "fst (form_img_data online_env (parser_one 0) fresh_state)
       = Inr [(''http://img.site/p.jpg'', None), (''http://img.site/p.jpg'', Some [])]"
    using t by blast
  have m: "Some ''http://img.site/p.jpg'' \<in> set (a_hrefs (page (parser_one 0)))"
    by (simp add: parser_one_def page_one_def empty_soup_def)
  have s: "suffix ''.jpg'' ''http://img.site/p.jpg''" by (simp add: suffix_to_prefix)
  from t[THEN conjunct2, THEN conjunct1, rule_format, of "''http://img.site/p.jpg''"] m s
  have i: "(''http://img.site/p.jpg'', Some []) \<in> set (collect_a_href_tag_images (parser_one 0))"
    by blast
  from t[THEN conjunct1, rule_format, OF f]
  have x: "\<exists>scanned. fst (collect_img_tag_images online_env (parser_one 0) fresh_state)
        = Inr scanned
      \<and> [(''http://img.site/p.jpg'', None), (''http://img.site/p.jpg'', Some [])]
          = scanned @ collect_a_href_tag_images (parser_one 0)" .
  from f m s i x show ?thesis by simp
qed

section \<open>A run with two pages\<close>

lemmas eval_form = NewsObject_form_news_def form_header_def date_of_def
  dateutil_parser_parse_def form_description_field_def description_text_def
  form_links_def image_marker_def caption_or_no_description_def link_key_def online_env_def offline_env_def
  example_parse_def example_dates newline_def str_nat_small digit_char_def

lemma page_one_object_form_news:
  "NewsObject_form_news online_env page_one_object = Inr page_one_container"
  by (simp add: page_one_object_def page_one_container_def linked_object_def
      item_with_link_def plain_item_def parser_one_def eval_form)

lemma page_two_object_form_news:
  "NewsObject_form_news online_env page_two_object = Inr page_two_container"
  by (simp add: page_two_object_def page_two_container_def linked_object_def
      item_with_link_def plain_item_def eval_form)

lemma two_pages_list:
  "form_news_list online_env two_pages_former
     = Inr [item_with_link ''A'' ''http://news.site/a1'',
            item_with_link ''B'' ''http://news.site/a2'']"
  by (simp add: form_news_list_def two_pages_former_def slice_to_def form_news_limit_def)

lemma two_pages_pool:
  "fst (executor_pool online_env [1, 1, 0, 0, 0] (Some ''Feed'')
          [item_with_link ''A'' ''http://news.site/a1'',
           item_with_link ''B'' ''http://news.site/a2''] fresh_state)
     = [Inr page_one_object, Inr page_two_object]"
  by (simp add: page_one_object_def page_two_object_def parser_one_def page_two_def
      eval_pool eval_scan eval_check)

lemma two_pages_run:
  "form_news online_env [1, 1, 0, 0, 0] fresh_state two_pages_former
     = Inr [page_one_container, page_two_container]"
  using two_pages_list two_pages_pool
  by (simp add: form_news_def two_pages_former_def page_one_object_form_news
      page_two_object_form_news)

text \<open>
  Two items; the page of the first has three images to check, that of the second
  none, and the schedule lets the second task finish before the first has started.
  The record of the first item still comes first.
\<close>

theorem form_news_order_witness:
  "form_news_list online_env two_pages_former
     = Inr [item_with_link ''A'' ''http://news.site/a1'',
            item_with_link ''B'' ''http://news.site/a2'']
   \<and> fst (run_schedule online_env [1, 1]
          (map (Submitted (Some ''Feed'')) (rss_items two_pages_former), fresh_state))
       = [Submitted (Some ''Feed'') (item_with_link ''A'' ''http://news.site/a1''),
          Finished (Inr page_two_object)]
   \<and> form_news online_env [1, 1, 0, 0, 0] fresh_state two_pages_former
       = Inr [page_one_container, page_two_container]
   \<and> length [page_one_container, page_two_container] = 2
   \<and> title ([page_one_container, page_two_container] ! 0) = Some ''A''
   \<and> title ([page_one_container, page_two_container] ! 1) = Some ''B''"
proof -
  have s: "fst (run_schedule online_env [1, 1]
          (map (Submitted (Some ''Feed'')) (rss_items two_pages_former), fresh_state))
       = [Submitted (Some ''Feed'') (item_with_link ''A'' ''http://news.site/a1''),
          Finished (Inr page_two_object)]"
    by (simp add: two_pages_former_def page_two_object_def page_two_def eval_pool eval_scan)
  note t = form_news_order[OF two_pages_list two_pages_run]
  from t have len: "length [page_one_container, page_two_container] = 2" by simp
  from t[THEN conjunct2, rule_format, of 0]
  have t0: "Tag (title ([page_one_container, page_two_container] ! 0)) = Tag (Some ''A'')"
    by (auto simp: item_with_link_def plain_item_def)
  from t[THEN conjunct2, rule_format, of 1]
  have t1: "Tag (title ([page_one_container, page_two_container] ! 1)) = Tag (Some ''B'')"
    by (auto simp: item_with_link_def plain_item_def)
  from two_pages_list s two_pages_run len t0 t1 show ?thesis by simp
qed

section \<open>Numbering of markers and links\<close>

lemma digit_char_inj: "a < 10 \<Longrightarrow> b < 10 \<Longrightarrow> digit_char a = digit_char b \<Longrightarrow> a = b"
proof -
  assume a: "a < 10" and b: "b < 10" and e: "digit_char a = digit_char b"
  have d: "distinct ''0123456789''" by simp
  have l: "length ''0123456789'' = 10" by simp
  from e have "''0123456789'' ! a = ''0123456789'' ! b" by (simp only: digit_char_def)
  with nth_eq_iff_index_eq[OF d, of a b] a b l show "a = b" by simp
qed

lemma digit_char_not_newline: "k < 10 \<Longrightarrow> digit_char k \<noteq> newline"
proof -
  assume "k < 10"
  then have "k \<in> {0, 1, 2, 3, 4, 5, 6, 7, 8, 9}" by auto
  then show ?thesis by (auto simp: digit_char_def newline_def)
qed

lemma str_nat_last: "str_nat n \<noteq> [] \<and> last (str_nat n) = digit_char (n mod 10)"
  by (cases "n < 10") (simp_all add: str_nat_small str_nat_large)

lemma str_nat_inj: "str_nat n = str_nat m \<Longrightarrow> n = m"
proof (induction n arbitrary: m rule: str_nat.induct)
  case (1 n)
  show ?case
  proof (cases "n < 10")
    case True
    show ?thesis
    proof (cases "m < 10")
      case m: True
      with True "1.prems" digit_char_inj show ?thesis by (simp add: str_nat_small)
    next
      case False
      with True "1.prems" str_nat_last[of "m div 10"] show ?thesis
        by (simp add: str_nat_small str_nat_large)
    qed
  next
    case False
    show ?thesis
    proof (cases "m < 10")
      case True
      with False "1.prems" str_nat_last[of "n div 10"] show ?thesis
        by (simp add: str_nat_small str_nat_large)
    next
      case m: False
      with False "1.prems" have e: "str_nat (n div 10) = str_nat (m div 10)"
        and d: "digit_char (n mod 10) = digit_char (m mod 10)"
        by (simp_all add: str_nat_large)
      from "1.IH"[OF False e] have "n div 10 = m div 10" .
      moreover from digit_char_inj[OF _ _ d] have "n mod 10 = m mod 10" by simp
      ultimately show ?thesis by (metis div_mult_mod_eq)
    qed
  qed
qed

lemma link_key_inj: "link_key n = link_key m \<Longrightarrow> n = m"
  by (simp add: link_key_def str_nat_inj)

lemma update_fresh: "k \<notin> fst ` set al \<Longrightarrow> AList.update k v al = al @ [(k, v)]"
  by (induction al) auto

lemma image_links_eq:
  "\<forall>k\<in>fst ` set ls. \<exists>n<counter. k = link_key n \<Longrightarrow>
     image_links counter images ls
       = ls @ map (\<lambda>i. (link_key (counter + i), fst (images ! i) @ '' (image)''))
                [0..<length images]"
proof (induction images arbitrary: counter ls)
  case Nil
  then show ?case by simp
next
  case (Cons im rest)
  obtain u cap where im: "im = (u, cap)" by (cases im)
  have fresh: "link_key counter \<notin> fst ` set ls"
  proof
    assume "link_key counter \<in> fst ` set ls"
    with Cons.prems obtain n where "n < counter" "link_key counter = link_key n" by blast
    with link_key_inj show False by blast
  qed
  let ?ls = "ls @ [(link_key counter, u @ '' (image)'')]"
  have keys: "\<forall>k\<in>fst ` set ?ls. \<exists>n<Suc counter. k = link_key n"
    using Cons.prems by (auto intro: less_SucI)
  have "image_links counter (im # rest) ls = image_links (Suc counter) rest ?ls"
    using im update_fresh[OF fresh] by simp
  also have "\<dots> = ?ls @ map (\<lambda>i. (link_key (Suc counter + i), fst (rest ! i) @ '' (image)''))
                [0..<length rest]"
    by (rule Cons.IH[OF keys])
  also have "\<dots> = ls @ map (\<lambda>i. (link_key (counter + i), fst ((im # rest) ! i) @ '' (image)''))
                [0..<length (im # rest)]"
    using im by (simp add: map_upt_Suc del: upt_Suc)
  finally show ?case .
qed

lemma image_markers_eq:
  "image_markers counter images
     = concat (map (\<lambda>i. image_marker (counter + i) (snd (images ! i))) [0..<length images])"
proof (induction images arbitrary: counter)
  case Nil
  then show ?case by simp
next
  case (Cons im rest)
  obtain u cap where im: "im = (u, cap)" by (cases im)
  from Cons.IH[of "Suc counter"] im show ?case
    by (simp add: map_upt_Suc del: upt_Suc)
qed

lemma description_text_linked:
  assumes "description_text obj = Inr d" and "img_data_container obj = Some images"
  shows "\<exists>body. d = image_markers 2 images @ body @ [newline]
    \<and> (case item_description (certain_rss_news obj) of
          Tag (Some rss_description) \<Rightarrow> body = re_sub_tags rss_description
        | _ \<Rightarrow> (\<exists>p. parser obj = Some p \<and> form_description p = Inr (Some body)))"
  using assms
  by (auto simp: description_text_def parser_description_def
      split: xml_field.splits option.splits sum.splits)

lemma description_and_links_keys:
  assumes "NewsObject_form_news e obj = Inr c"
    and "img_data_container obj = Some images"
  shows "\<exists>u body.
      html_url obj = Some u
    \<and> description c = get_text e (image_markers 2 images @ body @ [newline])
    \<and> image_markers 2 images
        = concat (map (\<lambda>i. ''[image '' @ str_nat (i + 2) @ '': ''
                           @ (case snd (images ! i) of
                                None \<Rightarrow> ''no description''
                              | Some cap \<Rightarrow> if cap \<noteq> [] then cap else ''no description'')
                           @ '']''
                           @ link_key (i + 2))
                   [0..<length images])
    \<and> (case item_description (certain_rss_news obj) of
          Tag (Some rss_description) \<Rightarrow> body = re_sub_tags rss_description
        | _ \<Rightarrow> (\<exists>p. parser obj = Some p \<and> form_description p = Inr (Some body)))
    \<and> links c = (link_key 1, u @ '' (link)'')
          # map (\<lambda>i. (link_key (i + 2), fst (images ! i) @ '' (image)'')) [0..<length images]
    \<and> length (links c) = length images + 1
    \<and> map fst (links c) = map link_key [1..<length images + 2]
    \<and> distinct (map fst (links c))"
proof -
  from assms(1) obtain d ls where d: "description_text obj = Inr d"
    and dc: "description c = get_text e d"
    and ls: "form_links obj = Inr ls" and lc: "links c = ls"
    by (auto simp: NewsObject_form_news_def form_description_field_def
        split: sum.splits prod.splits)
  from description_text_linked[OF d assms(2)] obtain body
    where b: "d = image_markers 2 images @ body @ [newline]"
      and bc: "case item_description (certain_rss_news obj) of
          Tag (Some rss_description) \<Rightarrow> body = re_sub_tags rss_description
        | _ \<Rightarrow> (\<exists>p. parser obj = Some p \<and> form_description p = Inr (Some body))"
    by blast
  from ls assms(2) obtain u where u: "html_url obj = Some u"
    and l: "ls = image_links 2 images (AList.update ''[1]'' (u @ '' (link)'') [])"
    by (auto simp: form_links_def split: option.splits)
  have k1: "link_key 1 = ''[1]''" by (simp add: link_key_def str_nat_small digit_char_def)
  have "\<exists>n<2. link_key 1 = link_key n"
    by (rule exI[of _ 1]) simp
  then have "\<forall>k\<in>fst ` set [(link_key 1, u @ '' (link)'')]. \<exists>n<2. k = link_key n"
    by simp
  from image_links_eq[OF this, of images] l k1
  have le: "ls = (link_key 1, u @ '' (link)'')
          # map (\<lambda>i. (link_key (2 + i), fst (images ! i) @ '' (image)'')) [0..<length images]"
    by simp
  then have le2: "ls = (link_key 1, u @ '' (link)'')
          # map (\<lambda>i. (link_key (i + 2), fst (images ! i) @ '' (image)'')) [0..<length images]"
    by (simp add: add.commute)
  have "map fst ls = link_key 1 # map (\<lambda>i. link_key (i + 2)) [0..<length images]"
    using le2 by (simp add: comp_def)
  also have "map (\<lambda>i. link_key (i + 2)) [0..<length images]
      = map link_key (map (\<lambda>i. i + 2) [0..<length images])" by simp
  also have "map (\<lambda>i. i + 2) [0..<length images] = [2..<length images + 2]"
    using map_add_upt[of 2 "length images"] by simp
  also have "link_key 1 # map link_key [2..<length images + 2]
      = map link_key [1..<length images + 2]"
  proof -
    have "[Suc 0..<length images + 2] = Suc 0 # [Suc (Suc 0)..<length images + 2]"
      by (rule upt_conv_Cons) simp
    then have "[1..<length images + 2] = 1 # [2..<length images + 2]"
      by (simp only: One_nat_def numeral_2_eq_2)
    then show ?thesis by (simp only: list.map)
  qed
  finally have keys: "map fst ls = map link_key [1..<length images + 2]" .
  have "inj link_key" using link_key_inj by (auto simp: inj_def)
  then have "inj_on link_key (set [1..<length images + 2])"
    by (rule inj_on_subset) (rule subset_UNIV)
  with distinct_upt[of 1 "length images + 2"]
  have "distinct (map link_key [1..<length images + 2])"
    by (simp only: distinct_map simp_thms)
  with keys have dist: "distinct (map fst ls)" by (simp only:)
  have m: "image_markers 2 images
        = concat (map (\<lambda>i. ''[image '' @ str_nat (i + 2) @ '': ''
                           @ (case snd (images ! i) of
                                None \<Rightarrow> ''no description''
                              | Some cap \<Rightarrow> if cap \<noteq> [] then cap else ''no description'')
                           @ '']''
                           @ link_key (i + 2))
                   [0..<length images])"
    by (simp add: image_markers_eq image_marker_def link_key_def add.commute
        caption_or_no_description_def cong: option.case_cong)
  have len: "length ls = length images + 1" unfolding le2 by simp
  show ?thesis
  proof (intro exI conjI)
    show "html_url obj = Some u" by (rule u)
    show "description c = get_text e (image_markers 2 images @ body @ [newline])"
      using dc b by (simp only:)
    show "image_markers 2 images
        = concat (map (\<lambda>i. ''[image '' @ str_nat (i + 2) @ '': ''
                           @ (case snd (images ! i) of
                                None \<Rightarrow> ''no description''
                              | Some cap \<Rightarrow> if cap \<noteq> [] then cap else ''no description'')
                           @ '']''
                           @ link_key (i + 2))
                   [0..<length images])" by (rule m)
    show "case item_description (certain_rss_news obj) of
          Tag (Some rss_description) \<Rightarrow> body = re_sub_tags rss_description
        | _ \<Rightarrow> (\<exists>p. parser obj = Some p \<and> form_description p = Inr (Some body))"
      by (rule bc)
    show "links c = (link_key 1, u @ '' (link)'')
          # map (\<lambda>i. (link_key (i + 2), fst (images ! i) @ '' (image)'')) [0..<length images]"
      using lc le2 by (simp only:)
    show "length (links c) = length images + 1" using lc len by (simp only:)
    show "map fst (links c) = map link_key [1..<length images + 2]"
      using lc keys by (simp only:)
    show "distinct (map fst (links c))" using lc dist by (simp only:)
  qed
qed

text \<open>
  Claim C6, as the code has it. For an object with a link and \<open>K\<close> images whose
  \<open>form_news\<close> does not raise: the text of the description is the \<open>K\<close>
  segments \<open>[image n: caption][n]\<close> for \<open>n = 2, ..., K + 1\<close> in the order of the
  images, each with the image's caption as it is, or \<open>no description\<close> when the
  caption is missing or empty, then the feed's description with the tags removed or,
  when the item has none, the description of the page, then a line break; the
  \<open>description\<close> field is \<open>get_text\<close> of this text. \<open>links\<close> has the
  \<open>K + 1\<close> entries \<open>[1]\<close> (the link of the item) and \<open>[2]\<close>, ...,
  \<open>[K + 1]\<close> (the images), with distinct keys, the keys that close the segments.
  Captions and body are not escaped: they may hold bracketed numbers of their own.
\<close>

theorem description_and_links_numbering:
  assumes "NewsObject_form_news e obj = Inr c"
    and "img_data_container obj = Some images"
  shows "\<exists>u body.
      html_url obj = Some u
    \<and> description c = get_text e (image_markers 2 images @ body @ [newline])
    \<and> image_markers 2 images
        = concat (map (\<lambda>i. ''[image '' @ str_nat (i + 2) @ '': ''
                           @ (case snd (images ! i) of
                                None \<Rightarrow> ''no description''
                              | Some cap \<Rightarrow> if cap \<noteq> [] then cap else ''no description'')
                           @ '']''
                           @ ''['' @ str_nat (i + 2) @ '']'')
                   [0..<length images])
    \<and> (case item_description (certain_rss_news obj) of
          Tag (Some rss_description) \<Rightarrow> body = re_sub_tags rss_description
        | _ \<Rightarrow> (\<exists>p. parser obj = Some p \<and> form_description p = Inr (Some body)))
    \<and> links c = (''[1]'', u @ '' (link)'')
          # map (\<lambda>i. (''['' @ str_nat (i + 2) @ '']'', fst (images ! i) @ '' (image)'')) [0..<length images]
    \<and> length (links c) = length images + 1
    \<and> map fst (links c) = map (\<lambda>n. ''['' @ str_nat n @ '']'') [1..<length images + 2]
    \<and> distinct (map fst (links c))"
proof -
  have k1: "link_key 1 = ''[1]''" by (simp add: link_key_def str_nat_small digit_char_def)
  from description_and_links_keys[OF assms] show ?thesis
    unfolding k1 unfolding link_key_def[abs_def] .
qed

text \<open>
  An object with two images, the first with the caption \<open>Sea\<close>, the second
  without caption.
\<close>

theorem description_and_links_numbering_witness:
  "NewsObject_form_news online_env captioned_object = Inr captioned_container
   \<and> img_data_container captioned_object
       = Some [(''http://img.bbc.site/a.jpg'', Some ''Sea''), (''http://img.site/p.jpg'', None)]
   \<and> description captioned_container
       = ''[image 2: Sea][2][image 3: no description][3]Body'' @ [newline]
   \<and> links captioned_container
       = [(''[1]'', ''http://news.site/a1 (link)''),
          (''[2]'', ''http://img.bbc.site/a.jpg (image)''),
          (''[3]'', ''http://img.site/p.jpg (image)'')]
   \<and> length (links captioned_container) = 2 + 1
   \<and> distinct (map fst (links captioned_container))"
proof -
  have f: "NewsObject_form_news online_env captioned_object = Inr captioned_container"
    by (simp add: captioned_object_def captioned_container_def linked_object_def
        item_with_link_def plain_item_def parser_one_def eval_form)
  have i: "img_data_container captioned_object
       = Some [(''http://img.bbc.site/a.jpg'', Some ''Sea''), (''http://img.site/p.jpg'', None)]"
    by (simp add: captioned_object_def linked_object_def)
  from description_and_links_numbering[OF f i]
  have "length (links captioned_container) = 2 + 1"
    and "distinct (map fst (links captioned_container))" by auto
  with f i show ?thesis
    by (simp add: captioned_container_def)
qed

text \<open>
  An \<open>img\<close> tag whose \<open>alt\<close> is \<open>x][7\<close> passes the checks with this caption.
  The description of the object with this one image holds the bracketed numbers
  \<open>[7]\<close> and \<open>[2]\<close>, two markers for one image, and \<open>[7]\<close> is no key of
  \<open>links\<close>.
\<close>

theorem caption_with_brackets_adds_a_marker:
  "fst (scan_tag online_env (parser_one 0) bracket_tag [] fresh_state)
     = Inr [(''http://img.site/p.jpg'', Some ''x][7'')]
   \<and> img_data_container bracket_object = Some [(''http://img.site/p.jpg'', Some ''x][7'')]
   \<and> NewsObject_form_news online_env bracket_object = Inr bracket_container
   \<and> description bracket_container = ''[image 2: x][7][2]Body'' @ [newline]
   \<and> sublist ''[7]'' (description bracket_container)
   \<and> map fst (links bracket_container) = [''[1]'', ''[2]'']
   \<and> ''[7]'' \<notin> set (map fst (links bracket_container))"
proof (intro conjI)
  show "fst (scan_tag online_env (parser_one 0) bracket_tag [] fresh_state)
     = Inr [(''http://img.site/p.jpg'', Some ''x][7'')]"
    by (simp add: parser_one_def bracket_tag_def photo_tag_def fresh_state_def eval_scan
        eval_check)
  show "img_data_container bracket_object = Some [(''http://img.site/p.jpg'', Some ''x][7'')]"
    by (simp add: bracket_object_def linked_object_def)
  show "NewsObject_form_news online_env bracket_object = Inr bracket_container"
    by (simp add: bracket_object_def bracket_container_def linked_object_def
        item_with_link_def plain_item_def parser_one_def eval_form)
  show "description bracket_container = ''[image 2: x][7][2]Body'' @ [newline]"
    by (simp add: bracket_container_def)
  show "sublist ''[7]'' (description bracket_container)"
    by (simp add: bracket_container_def sublist_Cons_right)
  show "map fst (links bracket_container) = [''[1]'', ''[2]'']"
    by (simp add: bracket_container_def)
  show "''[7]'' \<notin> set (map fst (links bracket_container))"
    by (simp add: bracket_container_def)
qed

section \<open>Line breaks in the fields\<close>

lemma zfill_last: "s \<noteq> [] \<Longrightarrow> last (zfill w s) = last s"
  by (simp add: zfill_def)

lemma str_datetime_last: "last (str_datetime d) \<noteq> newline"
proof -
  have z: "last (zfill w (str_nat n)) \<noteq> newline" for w n
    using str_nat_last[of n] digit_char_not_newline[of "n mod 10"]
    by (simp add: zfill_last)
  have n: "zfill w (str_nat n) \<noteq> []" for w n
    using str_nat_last[of n] by (simp add: zfill_def)
  show ?thesis
  proof (cases "microsecond d = 0")
    case True
    then show ?thesis using z[of 2 "second d"] n[of 2 "second d"]
      by (simp add: str_datetime_def)
  next
    case False
    then show ?thesis using z[of 6 "microsecond d"] n[of 6 "microsecond d"]
      by (simp add: str_datetime_def)
  qed
qed

text \<open>
  Claim C9, as the code has it. In every record \<open>form_news\<close> returns, \<open>feed\<close> is
  the title of the feed with one line break appended, and \<open>link\<close> carries an
  appended line break as well: it is the link of the item, or the no-link text for
  an item without link, followed by a line break. \<open>title\<close> is the string of the
  item's title as it is, \<open>date\<close> is the formatted time stamp and does not end in a
  line break, and \<open>description\<close> is \<open>get_text\<close> of a text to which a line break
  was appended.
\<close>

theorem news_container_line_breaks:
  assumes "NewsObject_form_news e obj = Inr c"
  shows "\<exists>t l d raw.
      obj_title obj = Some t \<and> feed c = t @ [newline]
    \<and> link c = l @ [newline]
    \<and> (if img_data_container obj = None then l = no_link_text
        else item_link (certain_rss_news obj) = Tag (Some l))
    \<and> item_title (certain_rss_news obj) = Tag (title c)
    \<and> date c = str_datetime d \<and> last (date c) \<noteq> newline
    \<and> description_text obj = Inr (raw @ [newline])
    \<and> description c = get_text e (raw @ [newline])"
proof -
  from assms obtain f t0 d0 l0 ds ls where h: "form_header e obj = Inr (f, t0, d0, l0)"
    and dd: "form_description_field e obj = Inr ds"
    and c: "c = \<lparr>feed = f, title = t0, date = d0, link = l0, description = ds, links = ls\<rparr>"
    by (auto simp: NewsObject_form_news_def split: sum.splits prod.splits)
  from h obtain t l where t: "obj_title obj = Some t" and f: "f = t @ [newline]"
    and it: "item_title (certain_rss_news obj) = Tag t0"
    and dt: "date_of e obj = Inr d0"
    and l0: "l0 = l @ [newline]"
    and l: "if img_data_container obj = None then l = no_link_text
        else item_link (certain_rss_news obj) = Tag (Some l)"
    by (auto simp: form_header_def split: option.splits xml_field.splits sum.splits if_splits)
  from dt obtain d where d: "d0 = str_datetime d"
    by (auto simp: date_of_def split: xml_field.splits sum.splits)
  from dd obtain dtext where x: "description_text obj = Inr dtext" and ds: "ds = get_text e dtext"
    by (auto simp: form_description_field_def split: sum.splits)
  from x obtain raw where raw: "dtext = raw @ [newline]"
    by (auto simp: description_text_def parser_description_def Let_def
        split: xml_field.splits option.splits sum.splits)
  show ?thesis
  proof (intro exI conjI)
    show "obj_title obj = Some t" by (rule t)
    show "feed c = t @ [newline]" using c f by simp
    show "link c = l @ [newline]" using c l0 by simp
    show "if img_data_container obj = None then l = no_link_text
        else item_link (certain_rss_news obj) = Tag (Some l)" by (rule l)
    show "item_title (certain_rss_news obj) = Tag (title c)" using c it by simp
    show "date c = str_datetime d" using c d by simp
    show "last (date c) \<noteq> newline" using c d str_datetime_last[of d] by simp
    show "description_text obj = Inr (raw @ [newline])" using x raw by simp
    show "description c = get_text e (raw @ [newline])" using c ds raw by simp
  qed
qed

text \<open>
  The record of the first page of the example: besides \<open>feed\<close>, its \<open>link\<close> and
  its \<open>description\<close> end in a line break.
\<close>

theorem link_field_ends_in_line_break:
  "NewsObject_form_news online_env page_one_object = Inr page_one_container
   \<and> link page_one_container = ''http://news.site/a1'' @ [newline]
   \<and> last (link page_one_container) = newline
   \<and> last (description page_one_container) = newline"
  using page_one_object_form_news by (simp add: page_one_container_def)

theorem news_container_line_breaks_witness:
  "NewsObject_form_news offline_env (no_link_object (Some ''Feed'') (plain_item ''First''))
     = Inr (plain_container ''First'')
   \<and> feed (plain_container ''First'') = ''Feed'' @ [newline]
   \<and> link (plain_container ''First'') = no_link_text @ [newline]
   \<and> last (date (plain_container ''First'')) \<noteq> newline"
proof -
  from news_container_line_breaks[OF plain_item_form_news[of "''First''"]]
  have "last (date (plain_container ''First'')) \<noteq> newline" by blast
  with plain_item_form_news[of "''First''"] show ?thesis by (simp add: plain_container_def)
qed

section \<open>Items without link\<close>

lemma no_link_init:
  "item_link item = NoTag \<Longrightarrow>
     NewsObject_init e flag t item st = (Inr (no_link_object t item), st)"
  by (simp add: NewsObject_init_def)

text \<open>
  Claim C5, as the code has it. For an item without \<open>link\<close> element
  \<open>NewsObject.__init__\<close> makes no parser and no request: the object does not depend
  on the network and the class state is left as it was. When the item has an inline
  description, the record \<open>form_news\<close> returns has as \<open>link\<close> the fixed text
  \<open>Rss news doesn't provide link\<close> followed by a line break, as \<open>links\<close> the one
  entry \<open>[1]\<close> with that text, and as \<open>description\<close> \<open>get_text\<close> of the inline
  description with its tags removed and a line break appended.
\<close>

theorem no_link_item_record:
  assumes "item_link item = NoTag"
    and "item_description item = Tag (Some rss_description)"
  shows "NewsObject_init e flag t item st = (Inr (no_link_object t item), st)
    \<and> (\<forall>c. NewsObject_form_news e (no_link_object t item) = Inr c \<longrightarrow>
          link c = no_link_text @ [newline]
        \<and> links c = [(''[1]'', no_link_text)]
        \<and> length (links c) = 1
        \<and> description c = get_text e (re_sub_tags rss_description @ [newline]))
    \<and> (\<forall>f it d. t = Some f \<and> item_title item = Tag it
          \<and> date_of e (no_link_object t item) = Inr d \<longrightarrow>
          NewsObject_form_news e (no_link_object t item)
            = Inr \<lparr>feed = f @ [newline], title = it, date = d,
                   link = no_link_text @ [newline],
                   description = get_text e (re_sub_tags rss_description @ [newline]),
                   links = [(''[1]'', no_link_text)]\<rparr>)"
proof -
  have a: "link c = no_link_text @ [newline] \<and> links c = [(''[1]'', no_link_text)]
        \<and> length (links c) = 1
        \<and> description c = get_text e (re_sub_tags rss_description @ [newline])"
    if "NewsObject_form_news e (no_link_object t item) = Inr c" for c
    using that assms
    by (auto simp: NewsObject_form_news_def form_header_def form_description_field_def
        description_text_def form_links_def no_link_object_def
        split: sum.splits option.splits xml_field.splits prod.splits)
  have b: "NewsObject_form_news e (no_link_object t item)
            = Inr \<lparr>feed = f @ [newline], title = it, date = d,
                   link = no_link_text @ [newline],
                   description = get_text e (re_sub_tags rss_description @ [newline]),
                   links = [(''[1]'', no_link_text)]\<rparr>"
    if "t = Some f \<and> item_title item = Tag it \<and> date_of e (no_link_object t item) = Inr d"
    for f it d
  proof -
    from that have f: "t = Some f" and it: "item_title item = Tag it"
      and d: "date_of e (no_link_object t item) = Inr d" by blast+
    have h: "form_header e (no_link_object t item)
        = Inr (f @ [newline], it, d, no_link_text @ [newline])"
      using d f it by (simp add: form_header_def) (simp add: no_link_object_def)
    have ds: "form_description_field e (no_link_object t item)
        = Inr (get_text e (re_sub_tags rss_description @ [newline]))"
      using assms(2)
      by (simp add: form_description_field_def description_text_def no_link_object_def)
    have ls: "form_links (no_link_object t item) = Inr [(''[1]'', no_link_text)]"
      by (simp add: form_links_def no_link_object_def)
    from h ds ls show ?thesis by (simp add: NewsObject_form_news_def)
  qed
  from no_link_init[OF assms(1)] a b show ?thesis by blast
qed

text \<open>
  An item without link: with an inline description the \<open>link\<close> field is the
  no-link text with a line break; without description element \<open>form_news\<close> raises
  \<open>AttributeError\<close>, the object has no \<open>_parser\<close> to ask for a description.
\<close>

theorem no_link_item_without_description_raises:
  "NewsObject_form_news offline_env (no_link_object (Some ''Feed'') (plain_item ''First''))
     = Inr (plain_container ''First'')
   \<and> link (plain_container ''First'')
       = ''Rss news doesn'' @ [CHR 0x27] @ ''t provide link'' @ [newline]
   \<and> NewsObject_init offline_env 0 (Some ''Feed'') bare_item fresh_state
       = (Inr (no_link_object (Some ''Feed'') bare_item), fresh_state)
   \<and> NewsObject_form_news offline_env (no_link_object (Some ''Feed'') bare_item)
       = Inl AttributeError"
proof -
  have "NewsObject_form_news offline_env (no_link_object (Some ''Feed'') bare_item)
       = Inl AttributeError"
    by (simp add: bare_item_def plain_item_def no_link_object_def parser_description_def
        eval_form)
  moreover have "NewsObject_init offline_env 0 (Some ''Feed'') bare_item fresh_state
       = (Inr (no_link_object (Some ''Feed'') bare_item), fresh_state)"
    by (simp add: NewsObject_init_def bare_item_def plain_item_def)
  ultimately show ?thesis
    using plain_item_form_news[of "''First''"]
    by (simp add: plain_container_def no_link_text_def)
qed

theorem no_link_item_record_witness:
  "item_link (plain_item ''First'') = NoTag
   \<and> item_description (plain_item ''First'') = Tag (Some ''<p>Body</p>'')
   \<and> NewsObject_init offline_env 0 (Some ''Feed'') (plain_item ''First'') fresh_state
       = (Inr (no_link_object (Some ''Feed'') (plain_item ''First'')), fresh_state)
   \<and> NewsObject_form_news offline_env (no_link_object (Some ''Feed'') (plain_item ''First''))
       = Inr (plain_container ''First'')
   \<and> link (plain_container ''First'') = no_link_text @ [newline]
   \<and> links (plain_container ''First'') = [(''[1]'', no_link_text)]
   \<and> description (plain_container ''First'') = ''Body'' @ [newline]"
proof -
  have l: "item_link (plain_item ''First'') = NoTag" by (simp add: plain_item_def)
  have d: "item_description (plain_item ''First'') = Tag (Some ''<p>Body</p>'')"
    by (simp add: plain_item_def)
  note t = no_link_item_record[OF l d, of offline_env 0 "Some ''Feed''" fresh_state]
  from t[THEN conjunct2, THEN conjunct1, rule_format, OF plain_item_form_news[of "''First''"]]
  have "link (plain_container ''First'') = no_link_text @ [newline]"
    and "links (plain_container ''First'') = [(''[1]'', no_link_text)]" by simp_all
  with t l d plain_item_form_news[of "''First''"] show ?thesis
    by (simp add: plain_container_def)
qed

section \<open>The acceptance filter and the rules of the specification\<close>
























end
